theory Spec2Isabelle
  imports Main "HOL-Library.Multiset" "HOL-Library.Product_Lexorder"
begin

section \<open>Data model (src/types/index.ts)\<close>

text \<open>
  Instants (\<open>Date\<close> objects) are modelled by their \<open>getTime()\<close> value, an integer number
  of milliseconds since the epoch. \<open>lastMessageDate\<close> is an option: \<open>None\<close> is the invalid
  \<open>Date\<close>, whose time is \<open>NaN\<close>, that \<open>parseThread\<close> builds from an \<open>internalDate\<close> that
  is missing or not numeric. The \<open>number\<close> fields that the services fill with integers
  are \<open>int\<close>. Optional fields (\<open>rationale?\<close>, \<open>description?\<close>, \<open>location?\<close>) are options;
  \<open>conflicts?: boolean\<close> is read by the code only for its truthiness, so it is a \<open>bool\<close>
  (absent = \<open>False\<close>). The field \<open>id\<close> is \<open>thread_id\<close>, \<open>event_id\<close> and \<open>brief_id\<close>, and
  \<open>end\<close> is \<open>end_time\<close>.
\<close>

datatype importance = high | medium | low

record EmailThread =
  thread_id :: string
  subject :: string
  participants :: "string list"
  lastMessageDate :: "int option"
  isUnread :: bool
  urgencyScore :: int
  importance :: importance
  actionRequired :: bool
  rationale :: "string option"
  snippet :: string

record CalendarEvent =
  event_id :: string
  title :: string
  start :: int
  end_time :: int
  description :: "string option"
  location :: "string option"
  conflicts :: bool

section \<open>Array.prototype.sort with a comparator\<close>

text \<open>
  \<open>xs.sort(cmp)\<close> is a stable sort: an element \<open>a\<close> stays before \<open>b\<close> unless
  \<open>cmp a b > 0\<close>. For a comparator that is a consistent (total pre-order) comparison
  the result is determined by that contract; it is computed here by stable insertion.
  For a comparator that is not consistent the language leaves the order to the engine,
  and the insertion is one such order. A comparator result \<open>NaN\<close> counts as \<open>+0\<close>.
\<close>

fun insert_by :: "('a \<Rightarrow> 'a \<Rightarrow> int) \<Rightarrow> 'a \<Rightarrow> 'a list \<Rightarrow> 'a list" where
  "insert_by cmp x [] = [x]"
| "insert_by cmp x (y # ys) =
     (if cmp x y \<le> 0 then x # y # ys else y # insert_by cmp x ys)"

definition js_sort :: "('a \<Rightarrow> 'a \<Rightarrow> int) \<Rightarrow> 'a list \<Rightarrow> 'a list" where
  "js_sort cmp xs = foldr (insert_by cmp) xs []"

definition nan_as_zero :: "int option \<Rightarrow> int" where
  "nan_as_zero v = (case v of None \<Rightarrow> 0 | Some k \<Rightarrow> k)"

section \<open>GmailService: rationale and ranking\<close>

fun join :: "string \<Rightarrow> string list \<Rightarrow> string" where
  "join sep [] = []"
| "join sep [x] = x"
| "join sep (x # y # ys) = x @ sep @ join sep (y # ys)"

definition hour_ms :: int where
  "hour_ms = 1000 * 60 * 60"

text \<open>
  \<open>generateRationale\<close>, with the reading of \<open>Date.now()\<close> as the parameter \<open>now\<close>; one
  call of \<open>rankThreads\<close> passes the same reading for all its threads. \<open>hoursAgo < 24\<close> on
  the quotient by \<open>hour_ms\<close> is the comparison \<open>now - lastMessageDate < 24 * hour_ms\<close> on
  the integers, and it is false for an invalid date.
\<close>

definition generateRationale :: "int \<Rightarrow> EmailThread \<Rightarrow> string" where
  "generateRationale now thread =
     (let reasons = [];
          reasons = (if urgencyScore thread \<ge> 7 then reasons @ [''High urgency score''] else reasons);
          reasons = (if isUnread thread then reasons @ [''Unread message''] else reasons);
          reasons = (if actionRequired thread then reasons @ [''Action required''] else reasons);
          reasons = (if (case lastMessageDate thread of
                           None \<Rightarrow> False
                         | Some d \<Rightarrow> now - d < 24 * hour_ms)
                     then reasons @ [''Recent message''] else reasons);
          joined = join '', '' reasons
      in if joined = [] then ''Standard priority'' else joined)"

definition importanceWeight :: "importance \<Rightarrow> int" where
  "importanceWeight i = (case i of high \<Rightarrow> 3 | medium \<Rightarrow> 2 | low \<Rightarrow> 1)"

text \<open>
  The comparator passed to \<open>sort\<close> in \<open>rankThreads\<close>: three keys, no other. The
  difference of two times is \<open>NaN\<close>, here \<open>None\<close>, when one of the dates is invalid.
\<close>

definition rank_cmp :: "EmailThread \<Rightarrow> EmailThread \<Rightarrow> int option" where
  "rank_cmp a b =
     (let importanceDiff = importanceWeight (importance b) - importanceWeight (importance a)
      in if importanceDiff \<noteq> 0 then Some importanceDiff
         else let urgencyDiff = urgencyScore b - urgencyScore a
              in if urgencyDiff \<noteq> 0 then Some urgencyDiff
                 else (case (lastMessageDate b, lastMessageDate a) of
                         (Some tb, Some ta) \<Rightarrow> Some (tb - ta)
                       | _ \<Rightarrow> None))"

definition with_rationale :: "int \<Rightarrow> EmailThread \<Rightarrow> EmailThread" where
  "with_rationale now thread = thread\<lparr>rationale := Some (generateRationale now thread)\<rparr>"

definition rankThreads :: "int \<Rightarrow> EmailThread list \<Rightarrow> EmailThread list" where
  "rankThreads now threads =
     js_sort (\<lambda>a b. nan_as_zero (rank_cmp a b)) (map (with_rationale now) threads)"


definition tie :: "EmailThread \<Rightarrow> EmailThread \<Rightarrow> bool" where
  "tie a b \<longleftrightarrow> importance a = importance b \<and> urgencyScore a = urgencyScore b
               \<and> lastMessageDate a = lastMessageDate b"


section \<open>Strings\<close>

text \<open>
  Strings are lists of 8-bit characters, read as the code units below 256 (ASCII and
  Latin-1); text with other code units is outside the model. \<open>toLowerCase\<close> maps the
  capital letters of that range to their small letters, \<open>includes_str\<close> is
  \<open>String.prototype.includes\<close> (substring test) and \<open>split_on\<close> is
  \<open>String.prototype.split\<close> with a one-character separator.
\<close>

definition capitals :: string where
  "capitals =
     ''ABCDEFGHIJKLMNOPQRSTUVWXYZ''
     @ [CHR 0xC0, CHR 0xC1, CHR 0xC2, CHR 0xC3, CHR 0xC4, CHR 0xC5, CHR 0xC6, CHR 0xC7,
        CHR 0xC8, CHR 0xC9, CHR 0xCA, CHR 0xCB, CHR 0xCC, CHR 0xCD, CHR 0xCE, CHR 0xCF,
        CHR 0xD0, CHR 0xD1, CHR 0xD2, CHR 0xD3, CHR 0xD4, CHR 0xD5, CHR 0xD6,
        CHR 0xD8, CHR 0xD9, CHR 0xDA, CHR 0xDB, CHR 0xDC, CHR 0xDD, CHR 0xDE]"

definition smalls :: string where
  "smalls =
     ''abcdefghijklmnopqrstuvwxyz''
     @ [CHR 0xE0, CHR 0xE1, CHR 0xE2, CHR 0xE3, CHR 0xE4, CHR 0xE5, CHR 0xE6, CHR 0xE7,
        CHR 0xE8, CHR 0xE9, CHR 0xEA, CHR 0xEB, CHR 0xEC, CHR 0xED, CHR 0xEE, CHR 0xEF,
        CHR 0xF0, CHR 0xF1, CHR 0xF2, CHR 0xF3, CHR 0xF4, CHR 0xF5, CHR 0xF6,
        CHR 0xF8, CHR 0xF9, CHR 0xFA, CHR 0xFB, CHR 0xFC, CHR 0xFD, CHR 0xFE]"

definition lower_char :: "char \<Rightarrow> char" where
  "lower_char c = (case map_of (zip capitals smalls) c of None \<Rightarrow> c | Some l \<Rightarrow> l)"

definition toLowerCase :: "string \<Rightarrow> string" where
  "toLowerCase s = map lower_char s"

fun startsWith :: "string \<Rightarrow> string \<Rightarrow> bool" where
  "startsWith s [] = True"
| "startsWith [] (k # ks) = False"
| "startsWith (c # cs) (k # ks) = (c = k \<and> startsWith cs ks)"

fun includes_str :: "string \<Rightarrow> string \<Rightarrow> bool" where
  "includes_str [] k = (k = [])"
| "includes_str (c # cs) k = (startsWith (c # cs) k \<or> includes_str cs k)"

fun split_on :: "char \<Rightarrow> string \<Rightarrow> string list" where
  "split_on d [] = [[]]"
| "split_on d (c # cs) =
     (if c = d then [] # split_on d cs
      else (case split_on d cs of [] \<Rightarrow> [[c]] | p # ps \<Rightarrow> (c # p) # ps))"

section \<open>GmailService: urgency and importance of a raw thread\<close>

text \<open>
  The provider's thread object is untyped (\<open>any\<close>) in the source. The fields that
  \<open>parseThread\<close> and the scoring read are modelled with their absence made explicit:
  \<open>None\<close> is a missing field. \<open>internalDate\<close> holds what \<open>parseInt\<close> returns (\<open>None\<close> for
  \<open>NaN\<close>), \<open>headers\<close> is \<open>payload?.headers\<close> (\<open>None\<close> when \<open>payload\<close> or \<open>headers\<close> is
  missing) and \<open>msnippet\<close> is the field \<open>snippet\<close> of a message. Every header has a name.
\<close>

record raw_header =
  hname :: string
  hvalue :: "string option"

record raw_message =
  internalDate :: "int option"
  labelIds :: "string list option"
  headers :: "raw_header list option"
  msnippet :: "string option"

record thread_data =
  data_id :: string
  messages :: "raw_message list option"

datatype js_error = TypeError

text \<open>\<open>threadData.messages || []\<close>\<close>

definition thread_messages :: "thread_data \<Rightarrow> raw_message list" where
  "thread_messages threadData = (case messages threadData of None \<Rightarrow> [] | Some ms \<Rightarrow> ms)"

definition has_label :: "string \<Rightarrow> raw_message \<Rightarrow> bool" where
  "has_label l m = (case labelIds m of None \<Rightarrow> False | Some ls \<Rightarrow> l \<in> set ls)"

text \<open>\<open>m?.payload?.headers?.find(h => h.name === n)?.value || ''\<close>\<close>

definition header_value :: "string \<Rightarrow> raw_message \<Rightarrow> string" where
  "header_value n m =
     (case headers m of
        None \<Rightarrow> ''''
      | Some hs \<Rightarrow>
          (case find (\<lambda>h. hname h = n) hs of
             None \<Rightarrow> ''''
           | Some h \<Rightarrow> (case hvalue h of None \<Rightarrow> '''' | Some v \<Rightarrow> v)))"

definition urgentKeywords :: "string list" where
  "urgentKeywords = [''urgent'', ''asap'', ''immediate'', ''deadline'', ''emergency'', ''critical'']"

text \<open>
  \<open>calculateUrgencyScore\<close>. With no message, \<open>latestMessage\<close> is \<open>undefined\<close> and reading
  \<open>latestMessage.internalDate\<close> throws. A \<open>NaN\<close> date fails all three comparisons. The
  comparisons of \<open>hoursAgo\<close> are written on the milliseconds.
\<close>

definition calculateUrgencyScore :: "int \<Rightarrow> thread_data \<Rightarrow> js_error + int" where
  "calculateUrgencyScore now threadData =
     (case thread_messages threadData of
        [] \<Rightarrow> Inl TypeError
      | firstMessage # rest \<Rightarrow>
          (let latestMessage = last (firstMessage # rest);
               score = 0;
               score = (case internalDate latestMessage of
                          None \<Rightarrow> score
                        | Some d \<Rightarrow>
                            if now - d < 2 * hour_ms then score + 3
                            else if now - d < 24 * hour_ms then score + 2
                            else if now - d < 72 * hour_ms then score + 1
                            else score);
               score = (if has_label ''UNREAD'' latestMessage then score + 2 else score);
               score = (if has_label ''IMPORTANT'' latestMessage then score + 2 else score);
               subject = toLowerCase (header_value ''Subject'' firstMessage);
               score = (if list_ex (\<lambda>keyword. includes_str subject keyword) urgentKeywords
                        then score + 3 else score)
           in Inr (min score 10)))"

text \<open>
  \<open>extractEmailAddress\<close>: the first match of \<open>/<([^>]+)>/\<close>, else the first match of
  \<open>/([^\s<>]+@[^\s<>]+)/\<close>, else the string itself. Both scans try the start positions
  from the left, as the regular-expression engine does. At a \<open><\<close> the greedy class takes
  every character up to the next \<open>>\<close>, which must exist and leave a non-empty group.
  At an address character the first group can only end at an \<open>@\<close> inside the maximal run
  of address characters, and the match is then that whole run.
\<close>

fun angle_match :: "string \<Rightarrow> string option" where
  "angle_match [] = None"
| "angle_match (c # cs) =
     (if c = CHR ''<'' \<and> takeWhile (\<lambda>x. x \<noteq> CHR ''>'') cs \<noteq> []
         \<and> dropWhile (\<lambda>x. x \<noteq> CHR ''>'') cs \<noteq> []
      then Some (takeWhile (\<lambda>x. x \<noteq> CHR ''>'') cs)
      else angle_match cs)"

text \<open>
  The class \<open>\s\<close> among the code units below 256: tab, line feed, vertical tab, form
  feed, carriage return, space and the no-break space.
\<close>

definition is_space :: "char \<Rightarrow> bool" where
  "is_space c =
     (c \<in> {CHR 0x09, CHR 0x0A, CHR 0x0B, CHR 0x0C, CHR 0x0D, CHR '' '', CHR 0xA0})"

definition addr_char :: "char \<Rightarrow> bool" where
  "addr_char c = (\<not> is_space c \<and> c \<noteq> CHR ''<'' \<and> c \<noteq> CHR ''>'')"

fun addr_match :: "string \<Rightarrow> string option" where
  "addr_match [] = None"
| "addr_match (c # cs) =
     (let run = takeWhile addr_char (c # cs)
      in if CHR ''@'' \<in> set (butlast (tl run)) then Some run else addr_match cs)"

definition extractEmailAddress :: "string \<Rightarrow> string" where
  "extractEmailAddress emailString =
     (case angle_match emailString of
        Some m \<Rightarrow> m
      | None \<Rightarrow> (case addr_match emailString of Some m \<Rightarrow> m | None \<Rightarrow> emailString))"

definition getFromEmail :: "thread_data \<Rightarrow> string" where
  "getFromEmail threadData =
     (let fromHeader =
            (case messages threadData of
               None \<Rightarrow> ''''
             | Some [] \<Rightarrow> ''''
             | Some (firstMessage # rest) \<Rightarrow> header_value ''From'' firstMessage)
      in extractEmailAddress fromHeader)"

definition vipDomains :: "string list" where
  "vipDomains = [''company.com'', ''client.com'']"

text \<open>\<open>email.split('@')[1]?.toLowerCase()\<close>: \<open>None\<close> is \<open>undefined\<close>.\<close>

definition sender_domain :: "string \<Rightarrow> string option" where
  "sender_domain email =
     (case split_on CHR ''@'' email of
        p # d # ps \<Rightarrow> Some (toLowerCase d)
      | _ \<Rightarrow> None)"

definition isVIPSender :: "string \<Rightarrow> bool" where
  "isVIPSender email =
     (case sender_domain email of None \<Rightarrow> False | Some domain \<Rightarrow> domain \<in> set vipDomains)"

definition calculateImportance :: "int \<Rightarrow> thread_data \<Rightarrow> js_error + importance" where
  "calculateImportance now threadData =
     (case calculateUrgencyScore now threadData of
        Inl e \<Rightarrow> Inl e
      | Inr score \<Rightarrow>
          (let fromEmail = getFromEmail threadData;
               isFromVIP = isVIPSender fromEmail
           in if score \<ge> 7 \<or> isFromVIP then Inr high
              else if score \<ge> 4 then Inr medium
              else Inr low))"

text \<open>
  \<open>determineActionRequired\<close>; as in \<open>calculateUrgencyScore\<close>, reading a field of the
  latest message throws when there is no message.
\<close>

definition actionKeywords :: "string list" where
  "actionKeywords =
     [''please'', ''can you'', ''could you'', ''would you'', ''need you to'',
      ''action required'', ''response needed'', ''reply'', ''confirm'',
      ''review'', ''approve'', ''sign'', ''meeting'']"

definition determineActionRequired :: "thread_data \<Rightarrow> js_error + bool" where
  "determineActionRequired threadData =
     (case thread_messages threadData of
        [] \<Rightarrow> Inl TypeError
      | firstMessage # rest \<Rightarrow>
          (let latestMessage = last (firstMessage # rest);
               snip = (case msnippet latestMessage of None \<Rightarrow> [] | Some t \<Rightarrow> toLowerCase t)
           in Inr (list_ex (\<lambda>keyword. includes_str snip keyword) actionKeywords)))"

text \<open>
  \<open>getHeader\<close>, the lookup that \<open>parseThread\<close> defines over the headers of the latest
  message: \<open>headers.find(h => h.name.toLowerCase() === name.toLowerCase())?.value || ''\<close>.
\<close>

definition getHeader :: "raw_header list \<Rightarrow> string \<Rightarrow> string" where
  "getHeader hs n =
     (case find (\<lambda>h. toLowerCase (hname h) = toLowerCase n) hs of
        None \<Rightarrow> []
      | Some h \<Rightarrow> (case hvalue h of None \<Rightarrow> [] | Some v \<Rightarrow> v))"

text \<open>
  \<open>parseThread\<close>. \<open>now_score\<close> is the reading of \<open>Date.now()\<close> in its call of
  \<open>calculateUrgencyScore\<close> and \<open>now_tier\<close> the later reading in its call of
  \<open>calculateImportance\<close>, which computes the score again. A thread without messages,
  and any error thrown on the way, gives \<open>null\<close>. The object returned has no rationale.
\<close>

definition parseThread :: "int \<Rightarrow> int \<Rightarrow> thread_data \<Rightarrow> EmailThread option" where
  "parseThread now_score now_tier threadData =
     (case thread_messages threadData of
        [] \<Rightarrow> None
      | firstMessage # rest \<Rightarrow>
          (let latestMessage = last (firstMessage # rest);
               hs = (case headers latestMessage of None \<Rightarrow> [] | Some l \<Rightarrow> l);
               subjectHeader = getHeader hs ''Subject'';
               subjectText = (if subjectHeader = [] then ''No Subject'' else subjectHeader);
               fromHeader = getHeader hs ''From'';
               toHeader = getHeader hs ''To'';
               addresses =
                 filter (\<lambda>e. e \<noteq> [])
                   (map extractEmailAddress (filter (\<lambda>e. e \<noteq> []) [fromHeader, toHeader]));
               unread = has_label ''UNREAD'' latestMessage;
               snip = (case msnippet latestMessage of None \<Rightarrow> [] | Some t \<Rightarrow> t)
           in case (calculateUrgencyScore now_score threadData,
                    calculateImportance now_tier threadData,
                    determineActionRequired threadData) of
                (Inr score, Inr tier, Inr action) \<Rightarrow>
                  Some \<lparr>thread_id = data_id threadData, subject = subjectText,
                         participants = addresses,
                         lastMessageDate = internalDate latestMessage,
                         isUnread = unread, urgencyScore = score, importance = tier,
                         actionRequired = action, rationale = None, snippet = snip\<rparr>
              | _ \<Rightarrow> None))"

text \<open>
  The rules in the words of the specification, for comparison with the code. The
  urgency of a thread is computed from its latest message: four additive signals,
  recency, the two labels and a keyword in the subject text, capped at 10. The subject
  text of a message is the value of its Subject header, as \<open>parseThread\<close> reads it. The
  tier is a function of the score and of the sender's domain.
\<close>

definition recency_signal :: "int \<Rightarrow> int option \<Rightarrow> int" where
  "recency_signal now sent =
     (case sent of
        None \<Rightarrow> 0
      | Some d \<Rightarrow> if now - d < 2 * hour_ms then 3
                  else if now - d < 24 * hour_ms then 2
                  else if now - d < 72 * hour_ms then 1 else 0)"

definition label_signal :: "string \<Rightarrow> raw_message \<Rightarrow> int" where
  "label_signal l m = (if has_label l m then 2 else 0)"

definition keyword_signal :: "string \<Rightarrow> int" where
  "keyword_signal subj =
     (if list_ex (\<lambda>k. includes_str (toLowerCase subj) k) urgentKeywords then 3 else 0)"

definition subject_text :: "raw_message \<Rightarrow> string" where
  "subject_text m = getHeader (case headers m of None \<Rightarrow> [] | Some l \<Rightarrow> l) ''Subject''"

definition spec_urgency :: "int \<Rightarrow> raw_message \<Rightarrow> int" where
  "spec_urgency now latestMessage =
     min (recency_signal now (internalDate latestMessage)
          + label_signal ''UNREAD'' latestMessage
          + label_signal ''IMPORTANT'' latestMessage
          + keyword_signal (subject_text latestMessage)) 10"

definition spec_importance :: "int \<Rightarrow> string option \<Rightarrow> importance" where
  "spec_importance urgency domain =
     (if urgency \<ge> 7 \<or> (\<exists>d. domain = Some d \<and> d \<in> set vipDomains) then high
      else if urgency \<ge> 4 then medium else low)"

section \<open>CalendarService: conflict detection\<close>

definition eventsOverlap :: "CalendarEvent \<Rightarrow> CalendarEvent \<Rightarrow> bool" where
  "eventsOverlap event1 event2 \<longleftrightarrow> start event1 < end_time event2 \<and> start event2 < end_time event1"

definition start_cmp :: "CalendarEvent \<Rightarrow> CalendarEvent \<Rightarrow> int" where
  "start_cmp a b = start a - start b"

text \<open>
  The nested \<open>for\<close> statements of \<open>detectConflicts\<close> over the sorted array.
  \<open>event1.conflicts = true\<close> writes to the object at index \<open>i\<close>,
  \<open>event2.conflicts = true\<close> to the one at \<open>j\<close>; the array holds one object per parsed
  event, so the writes are updates at these indices. The flag is only ever set.
\<close>

function conflicts_inner :: "nat \<Rightarrow> nat \<Rightarrow> CalendarEvent list \<Rightarrow> CalendarEvent list" where
  "conflicts_inner i j sortedEvents =
     (if j < length sortedEvents then
        (let event1 = sortedEvents ! i;
             event2 = sortedEvents ! j
         in conflicts_inner i (j + 1)
              (if eventsOverlap event1 event2
               then (sortedEvents[i := event1\<lparr>conflicts := True\<rparr>])[j := event2\<lparr>conflicts := True\<rparr>]
               else sortedEvents))
      else sortedEvents)"
  by pat_completeness auto
termination
  by (relation "measure (\<lambda>(i, j, es). length es - j)") auto

declare conflicts_inner.simps [simp del]

function conflicts_outer :: "nat \<Rightarrow> CalendarEvent list \<Rightarrow> CalendarEvent list" where
  "conflicts_outer i sortedEvents =
     (if i < length sortedEvents
      then conflicts_outer (i + 1) (conflicts_inner i (i + 1) sortedEvents)
      else sortedEvents)"
  by pat_completeness auto
termination
proof (relation "measure (\<lambda>(i, es). length es - i)")
  show "wf (measure (\<lambda>(i, es). length es - i))"
    by simp
next
  fix i :: nat and sortedEvents :: "CalendarEvent list"
  assume less: "i < length sortedEvents"
  have len: "length (conflicts_inner a b es) = length es" for a b es
    by (induction a b es rule: conflicts_inner.induct)
       (subst conflicts_inner.simps, simp add: Let_def)
  show "((i + 1, conflicts_inner i (i + 1) sortedEvents), (i, sortedEvents))
          \<in> measure (\<lambda>(i, es). length es - i)"
    using less by (simp add: len)
qed

declare conflicts_outer.simps [simp del]

definition detectConflicts :: "CalendarEvent list \<Rightarrow> CalendarEvent list" where
  "detectConflicts events = conflicts_outer 0 (js_sort start_cmp events)"

section \<open>BriefService: cache and brief generation\<close>

record BriefData =
  brief_id :: string
  timestamp :: int
  calendarEvents :: "CalendarEvent list"
  topEmails :: "EmailThread list"
  allEmails :: "EmailThread list"

text \<open>The two window fields of \<open>AppSettings\<close>, the only ones that \<open>generateBrief\<close> reads.\<close>

record AppSettings =
  emailWindow :: int
  calendarWindow :: int

text \<open>
  The persistent store holds the two entries \<open>cached_brief_data\<close> and \<open>brief_timestamp\<close>;
  \<open>None\<close> is an absent (or empty) entry. Only \<open>cacheBrief\<close> writes them, so the blob is kept
  as the \<open>BriefData\<close> it serialises and the timestamp as its instant. \<open>available\<close> is
  false when the calls to the store reject; every such error is caught in the source.
\<close>

record storage =
  cached_brief_data :: "BriefData option"
  brief_timestamp :: "int option"
  available :: bool

definition BRIEF_CACHE_DURATION :: int where
  "BRIEF_CACHE_DURATION = 5 * 60 * 1000"

definition clearCache :: "storage \<Rightarrow> storage" where
  "clearCache st =
     (if available st then st\<lparr>cached_brief_data := None, brief_timestamp := None\<rparr> else st)"

definition cacheBrief :: "int \<Rightarrow> BriefData \<Rightarrow> storage \<Rightarrow> storage" where
  "cacheBrief now briefData st =
     (if available st
      then st\<lparr>cached_brief_data := Some briefData, brief_timestamp := Some now\<rparr>
      else st)"

definition getCachedBrief :: "int \<Rightarrow> storage \<Rightarrow> BriefData option \<times> storage" where
  "getCachedBrief now st =
     (if \<not> available st then (None, st)
      else case (cached_brief_data st, brief_timestamp st) of
             (Some cachedData, Some cachedAt) \<Rightarrow>
               if now - cachedAt > BRIEF_CACHE_DURATION then (None, clearCache st)
               else (Some cachedData, st)
           | _ \<Rightarrow> (None, st))"

datatype fetch_error = FetchError

text \<open>
  The two sources. The argument \<open>emailSource\<close> (\<open>calendarSource\<close>) gives, for a window, the
  outcome of the provider requests and of parsing: the parsed items, or the error thrown
  by a request. Both methods catch the error and return the empty list.
\<close>

definition getEmailsFromWindow ::
  "int \<Rightarrow> (int \<Rightarrow> fetch_error + EmailThread list) \<Rightarrow> int \<Rightarrow> EmailThread list" where
  "getEmailsFromWindow now emailSource hoursBack =
     (case emailSource hoursBack of
        Inr threads \<Rightarrow> rankThreads now threads
      | Inl e \<Rightarrow> [])"

definition getEventsFromWindow ::
  "(int \<Rightarrow> fetch_error + CalendarEvent list) \<Rightarrow> int \<Rightarrow> CalendarEvent list" where
  "getEventsFromWindow calendarSource hoursAhead =
     (case calendarSource hoursAhead of
        Inr events \<Rightarrow> detectConflicts events
      | Inl e \<Rightarrow> [])"

function show_nat :: "nat \<Rightarrow> string" where
  "show_nat n =
     (if n < 10 then [''0123456789'' ! n]
      else show_nat (n div 10) @ [''0123456789'' ! (n mod 10)])"
  by pat_completeness auto
termination
  by (relation "measure (\<lambda>n. n)") auto

declare show_nat.simps [simp del]

definition show_int :: "int \<Rightarrow> string" where
  "show_int k = (if k < 0 then CHR ''-'' # show_nat (nat (- k)) else show_nat (nat k))"

text \<open>\<open>settings?.emailWindow || 96\<close>: a missing or zero window takes the default.\<close>

definition window_or :: "AppSettings option \<Rightarrow> (AppSettings \<Rightarrow> int) \<Rightarrow> int \<Rightarrow> int" where
  "window_or settings field dflt =
     (case settings of
        None \<Rightarrow> dflt
      | Some s \<Rightarrow> if field s = 0 then dflt else field s)"

text \<open>
  The readings of the clock during one call of \<open>generateBrief\<close>: at the cache check, in
  \<open>rankThreads\<close>, for the id, for the timestamp and in \<open>cacheBrief\<close>.
\<close>

record clock =
  t_check :: int
  t_rank :: int
  t_id :: int
  t_stamp :: int
  t_store :: int

text \<open>
  \<open>generateBrief\<close>. Its \<open>catch\<close> rethrows, so the result is a sum; no call inside the
  \<open>try\<close> block throws, since each callee catches its own errors.
\<close>

definition generateBrief ::
  "clock \<Rightarrow> AppSettings option \<Rightarrow> (int \<Rightarrow> fetch_error + EmailThread list)
     \<Rightarrow> (int \<Rightarrow> fetch_error + CalendarEvent list) \<Rightarrow> storage
     \<Rightarrow> (fetch_error + BriefData) \<times> storage" where
  "generateBrief clk settings emailSource calendarSource st =
     (case getCachedBrief (t_check clk) st of
        (Some cachedBrief, st') \<Rightarrow> (Inr cachedBrief, st')
      | (None, st') \<Rightarrow>
          (let emailHours = window_or settings emailWindow 96;
               calendarHours = window_or settings calendarWindow 24;
               emails = getEmailsFromWindow (t_rank clk) emailSource emailHours;
               events = getEventsFromWindow calendarSource calendarHours;
               briefData = \<lparr>brief_id = ''brief_'' @ show_int (t_id clk),
                            timestamp = t_stamp clk,
                            calendarEvents = events,
                            topEmails = take 3 emails,
                            allEmails = emails\<rparr>
           in (Inr briefData, cacheBrief (t_store clk) briefData st')))"

section \<open>Sample inputs\<close>

definition thread_a :: EmailThread where
  "thread_a =
     \<lparr>thread_id = ''a'', subject = ''Status'', participants = [''ann@example.org''],
      lastMessageDate = Some 1000, isUnread = False, urgencyScore = 2, importance = low,
      actionRequired = False, rationale = None, snippet = ''fyi''\<rparr>"

definition thread_b :: EmailThread where
  "thread_b = thread_a\<lparr>thread_id := ''b''\<rparr>"

definition thread_c :: EmailThread where
  "thread_c = thread_a\<lparr>thread_id := ''c'', urgencyScore := 8, importance := high\<rparr>"

text \<open>
  Three threads of equal importance and urgency: one dated 1000, one with an invalid
  date and one dated 2000.
\<close>

definition thread_old :: EmailThread where
  "thread_old = thread_a\<lparr>thread_id := ''old''\<rparr>"

definition thread_nodate :: EmailThread where
  "thread_nodate = thread_a\<lparr>thread_id := ''nodate'', lastMessageDate := None\<rparr>"

definition thread_new :: EmailThread where
  "thread_new = thread_a\<lparr>thread_id := ''new'', lastMessageDate := Some 2000\<rparr>"

text \<open>
  Raw threads. \<open>message d ls hs\<close> is a message with date, labels and headers, and
  \<open>one_message i m\<close> the thread that holds it alone.
\<close>

definition message ::
  "int option \<Rightarrow> string list \<Rightarrow> (string \<times> string) list \<Rightarrow> raw_message" where
  "message d ls hs =
     \<lparr>internalDate = d, labelIds = Some ls,
      headers = Some (map (\<lambda>(n, v). \<lparr>hname = n, hvalue = Some v\<rparr>) hs),
      msnippet = Some []\<rparr>"

definition one_message :: "string \<Rightarrow> raw_message \<Rightarrow> thread_data" where
  "one_message i m = \<lparr>data_id = i, messages = Some [m]\<rparr>"

text \<open>
  A thread whose only message was sent at instant 0, unread and important, with the
  subject \<open>URGENT: deadline\<close>; and a thread without date or labels from a VIP domain.
\<close>

definition urgent_thread :: thread_data where
  "urgent_thread =
     one_message ''t1''
       (message (Some 0) [''INBOX'', ''UNREAD'', ''IMPORTANT'']
          [(''From'', ''Bob <bob@example.org>''), (''Subject'', ''URGENT: deadline'')])"

definition vip_thread :: thread_data where
  "vip_thread =
     one_message ''t2''
       \<lparr>internalDate = None, labelIds = None,
        headers = Some [\<lparr>hname = ''From'', hvalue = Some ''Ann <ann@Client.com>''\<rparr>],
        msnippet = None\<rparr>"

text \<open>
  Threads on which the subject or the sender that \<open>parseThread\<close> reports differs from
  the one that the scoring reads. The first two hold one unread message without date
  whose subject is \<open>URGENT: server down\<close>, under the header name \<open>Subject\<close> and under
  \<open>subject\<close>. The third is a message with the subject \<open>Hello\<close> followed by one with the
  subject \<open>URGENT: server down\<close>.
\<close>

definition subject_thread :: thread_data where
  "subject_thread =
     one_message ''t3''
       (message None [''INBOX'', ''UNREAD''] [(''Subject'', ''URGENT: server down'')])"

definition lowercase_subject_thread :: thread_data where
  "lowercase_subject_thread =
     one_message ''t4''
       (message None [''INBOX'', ''UNREAD''] [(''subject'', ''URGENT: server down'')])"

definition changed_subject_thread :: thread_data where
  "changed_subject_thread =
     \<lparr>data_id = ''t5'',
      messages =
        Some [message None [''INBOX''] [(''Subject'', ''Hello'')],
              message None [''INBOX'', ''UNREAD''] [(''Subject'', ''URGENT: server down'')]]\<rparr>"

text \<open>
  One message from \<open>ann@company.com\<close> under the header name \<open>from\<close>; one whose From
  header lists two addresses; a message from \<open>me@example.org\<close> answered by
  \<open>boss@client.com\<close>; and an unread, important message dated 0.
\<close>

definition lowercase_from_thread :: thread_data where
  "lowercase_from_thread =
     one_message ''t6'' (message None [''INBOX''] [(''from'', ''Ann <ann@company.com>'')])"

definition two_address_thread :: thread_data where
  "two_address_thread =
     one_message ''t7'' (message None [''INBOX''] [(''From'', ''ann@company.com, bob@x.org'')])"

definition answered_thread :: thread_data where
  "answered_thread =
     \<lparr>data_id = ''t8'',
      messages =
        Some [message None [''INBOX''] [(''From'', ''me@example.org'')],
              message None [''INBOX''] [(''From'', ''Boss <boss@client.com>'')]]\<rparr>"

definition two_hour_thread :: thread_data where
  "two_hour_thread =
     one_message ''t9''
       (message (Some 0) [''UNREAD'', ''IMPORTANT''] [(''From'', ''bob@example.org'')])"

definition meeting :: "string \<Rightarrow> int \<Rightarrow> int \<Rightarrow> CalendarEvent" where
  "meeting i s e =
     \<lparr>event_id = i, title = ''Meeting'', start = s, end_time = e, description = None,
      location = None, conflicts = False\<rparr>"

text \<open>Three meetings of one day, 09:00-10:00, 09:30-10:30 and 10:00-11:00, in milliseconds.\<close>

definition event_0900_1000 :: CalendarEvent where
  "event_0900_1000 = meeting ''e1'' 32400000 36000000"



section \<open>Notions used in the proofs\<close>

text \<open>
  \<open>frame\<close> is an event without its flag. \<open>mark i j\<close> is one pass through the body of
  the inner loop of \<open>detectConflicts\<close>, and \<open>pair_from i es k\<close> says that index \<open>k\<close> is a
  member of an overlapping pair \<open>a < b\<close> of \<open>es\<close> with \<open>i \<le> a\<close>.
\<close>

definition frame ::
  "CalendarEvent \<Rightarrow> string \<times> string \<times> int \<times> int \<times> string option \<times> string option" where
  "frame e = (event_id e, title e, start e, end_time e, description e, location e)"

definition mark :: "nat \<Rightarrow> nat \<Rightarrow> CalendarEvent list \<Rightarrow> CalendarEvent list" where
  "mark i j es =
     (if eventsOverlap (es ! i) (es ! j)
      then (es[i := (es ! i)\<lparr>conflicts := True\<rparr>])[j := (es ! j)\<lparr>conflicts := True\<rparr>]
      else es)"


text \<open>
  \<open>generated\<close> is the \<open>BriefData\<close> that \<open>generateBrief\<close> assembles when it does not return
  a cached brief.
\<close>

definition generated ::
  "clock \<Rightarrow> AppSettings option \<Rightarrow> (int \<Rightarrow> fetch_error + EmailThread list)
     \<Rightarrow> (int \<Rightarrow> fetch_error + CalendarEvent list) \<Rightarrow> BriefData" where
  "generated clk settings emailSource calendarSource =
     \<lparr>brief_id = ''brief_'' @ show_int (t_id clk),
      timestamp = t_stamp clk,
      calendarEvents = getEventsFromWindow calendarSource (window_or settings calendarWindow 24),
      topEmails =
        take 3 (getEmailsFromWindow (t_rank clk) emailSource (window_or settings emailWindow 96)),
      allEmails = getEmailsFromWindow (t_rank clk) emailSource (window_or settings emailWindow 96)\<rparr>"

definition top_is_prefix :: "BriefData \<Rightarrow> bool" where
  "top_is_prefix b \<longleftrightarrow>
     (\<exists>rest. allEmails b = topEmails b @ rest)
     \<and> length (topEmails b) = min 3 (length (allEmails b))"

definition store_ok :: "storage \<Rightarrow> bool" where
  "store_ok st \<longleftrightarrow> (\<forall>b. cached_brief_data st = Some b \<longrightarrow> top_is_prefix b)"

definition empty_storage :: storage where
  "empty_storage = \<lparr>cached_brief_data = None, brief_timestamp = None, available = True\<rparr>"

text \<open>
  The thread key of the specification's Deduplicator, which has no counterpart in the
  source: the subject without leading \<open>Re:\<close> and \<open>Fwd:\<close> tokens, lower-cased and trimmed,
  with the set of participants.
\<close>

function strip_reply_tokens :: "string \<Rightarrow> string" where
  "strip_reply_tokens s =
     (let t = dropWhile is_space s
      in if startsWith t ''re:'' then strip_reply_tokens (drop 3 t)
         else if startsWith t ''fwd:'' then strip_reply_tokens (drop 4 t)
         else t)"
  by pat_completeness auto
termination
proof (relation "measure length")
  show "wf (measure length)"
    by simp
next
  fix s t :: string
  assume t: "t = dropWhile is_space s" and re: "startsWith t ''re:''"
  from re have "t \<noteq> []"
    by (cases t) simp_all
  moreover have "length t \<le> length s"
    unfolding t by (rule length_dropWhile_le)
  ultimately show "(drop 3 t, s) \<in> measure length"
    by (cases t) auto
next
  fix s t :: string
  assume t: "t = dropWhile is_space s" and fwd: "startsWith t ''fwd:''"
  from fwd have "t \<noteq> []"
    by (cases t) simp_all
  moreover have "length t \<le> length s"
    unfolding t by (rule length_dropWhile_le)
  ultimately show "(drop 4 t, s) \<in> measure length"
    by (cases t) auto
qed

declare strip_reply_tokens.simps [simp del]

definition normalize_subject :: "string \<Rightarrow> string" where
  "normalize_subject s =
     rev (dropWhile is_space (rev (strip_reply_tokens (toLowerCase s))))"

definition dedup_key :: "EmailThread \<Rightarrow> string \<times> string set" where
  "dedup_key t = (normalize_subject (subject t), set (participants t))"

definition failing :: "int \<Rightarrow> fetch_error + 'a list" where
  "failing hours = Inl FetchError"

definition two_account_source :: "int \<Rightarrow> fetch_error + EmailThread list" where
  "two_account_source hours = Inr [thread_a, thread_b]"

definition no_events :: "int \<Rightarrow> fetch_error + CalendarEvent list" where
  "no_events hours = Inr []"

definition old_brief :: BriefData where
  "old_brief =
     \<lparr>brief_id = ''brief_0'', timestamp = 0, calendarEvents = [event_0900_1000],
      topEmails = [thread_c], allEmails = [thread_c]\<rparr>"

definition at_time :: "int \<Rightarrow> clock" where
  "at_time t = \<lparr>t_check = t, t_rank = t, t_id = t, t_stamp = t, t_store = t\<rparr>"

section \<open>Interleaved calls of generateBrief\<close>

text \<open>
  JavaScript runs one call at a time and switches between calls only at an \<open>await\<close>.
  A call of \<open>generateBrief\<close> is therefore a sequence of atomic segments, and the state
  of a call says which promise it awaits:
  \<^item> \<open>AwaitCache\<close>: the two \<open>getItem\<close> reads of \<open>getCachedBrief\<close>;
  \<^item> \<open>AwaitClear\<close>: \<open>clearCache\<close>, after an expired entry was read;
  \<^item> \<open>AwaitSources\<close>: the \<open>Promise.all\<close> of the two source fetches, which are in flight;
  \<^item> \<open>AwaitStore b t\<close>: the two \<open>setItem\<close> writes of \<open>cacheBrief\<close> for brief \<open>b\<close>, stamped \<open>t\<close>;
  \<^item> \<open>Returned b\<close>: the call has returned \<open>b\<close>.
  A step resolves the awaited promise of one call at a clock reading and runs the call
  up to its next \<open>await\<close>. The third component of \<open>call_step\<close> is 1 when the step issues the
  pair of source fetches. The source has no registry of pending generations, so a step
  of one call reads nothing of the other calls.
\<close>

datatype call_state =
  AwaitCache | AwaitClear | AwaitSources | AwaitStore BriefData int | Returned BriefData

definition call_step ::
  "AppSettings option \<Rightarrow> (int \<Rightarrow> fetch_error + EmailThread list)
     \<Rightarrow> (int \<Rightarrow> fetch_error + CalendarEvent list) \<Rightarrow> int \<Rightarrow> call_state \<Rightarrow> storage
     \<Rightarrow> call_state \<times> storage \<times> nat" where
  "call_step settings emailSource calendarSource now c st =
     (case c of
        AwaitCache \<Rightarrow>
          (if \<not> available st then (AwaitSources, st, 1)
           else case (cached_brief_data st, brief_timestamp st) of
                  (Some cachedData, Some cachedAt) \<Rightarrow>
                    if now - cachedAt > BRIEF_CACHE_DURATION then (AwaitClear, st, 0)
                    else (Returned cachedData, st, 0)
                | _ \<Rightarrow> (AwaitSources, st, 1))
      | AwaitClear \<Rightarrow> (AwaitSources, clearCache st, 1)
      | AwaitSources \<Rightarrow>
          (AwaitStore (generated (at_time now) settings emailSource calendarSource) now, st, 0)
      | AwaitStore b t \<Rightarrow> (Returned b, cacheBrief t b st, 0)
      | Returned b \<Rightarrow> (Returned b, st, 0))"

record world =
  store :: storage
  generations :: nat
  calls :: "call_state list"

definition world_step ::
  "AppSettings option \<Rightarrow> (int \<Rightarrow> fetch_error + EmailThread list)
     \<Rightarrow> (int \<Rightarrow> fetch_error + CalendarEvent list) \<Rightarrow> nat \<times> int \<Rightarrow> world \<Rightarrow> world" where
  "world_step settings emailSource calendarSource ev w =
     (case ev of
        (c, now) \<Rightarrow>
          if c < length (calls w) then
            (case call_step settings emailSource calendarSource now (calls w ! c) (store w) of
               (c', st', g) \<Rightarrow>
                 \<lparr>store = st', generations = generations w + g, calls = (calls w)[c := c']\<rparr>)
          else w)"

definition run ::
  "AppSettings option \<Rightarrow> (int \<Rightarrow> fetch_error + EmailThread list)
     \<Rightarrow> (int \<Rightarrow> fetch_error + CalendarEvent list) \<Rightarrow> (nat \<times> int) list \<Rightarrow> world \<Rightarrow> world" where
  "run settings emailSource calendarSource schedule w =
     fold (world_step settings emailSource calendarSource) schedule w"

definition returned_timestamp :: "call_state \<Rightarrow> int option" where
  "returned_timestamp c = (case c of Returned b \<Rightarrow> Some (timestamp b) | _ \<Rightarrow> None)"

definition in_flight :: "world \<Rightarrow> nat" where
  "in_flight w = length (filter (\<lambda>c. c = AwaitSources) (calls w))"

text \<open>The calls that have not yet decided whether to fetch.\<close>

definition undecided :: "world \<Rightarrow> nat" where
  "undecided w = length (filter (\<lambda>c. c = AwaitCache \<or> c = AwaitClear) (calls w))"

definition cold :: "nat \<Rightarrow> world" where
  "cold n = \<lparr>store = empty_storage, generations = 0, calls = replicate n AwaitCache\<rparr>"


text \<open>
  Notions for stating what holds of every schedule. \<open>overlapping w\<close>: every call has made
  its cache check and none has returned. \<open>own_briefs c schedule\<close>: the briefs that call
  \<open>c\<close> can assemble from its own fetches, one for each clock reading at which the
  schedule runs \<open>c\<close>. \<open>own_state E g i c\<close>: call \<open>i\<close> in state \<open>c\<close> awaits its own fetches,
  or holds the brief \<open>g t\<close> that it assembled at one of its own steps \<open>(i, t)\<close> of \<open>E\<close>.
\<close>

definition is_returned :: "call_state \<Rightarrow> bool" where
  "is_returned c = (case c of Returned b \<Rightarrow> True | _ \<Rightarrow> False)"

definition overlapping :: "world \<Rightarrow> bool" where
  "overlapping w = list_all (\<lambda>c. c \<noteq> AwaitCache \<and> \<not> is_returned c) (calls w)"

definition own_briefs ::
  "AppSettings option \<Rightarrow> (int \<Rightarrow> fetch_error + EmailThread list)
     \<Rightarrow> (int \<Rightarrow> fetch_error + CalendarEvent list) \<Rightarrow> nat \<Rightarrow> (nat \<times> int) list
     \<Rightarrow> BriefData list" where
  "own_briefs settings emailSource calendarSource c schedule =
     map (\<lambda>ev. generated (at_time (snd ev)) settings emailSource calendarSource)
       (filter (\<lambda>ev. fst ev = c) schedule)"

definition own_state :: "(nat \<times> int) set \<Rightarrow> (int \<Rightarrow> BriefData) \<Rightarrow> nat \<Rightarrow> call_state \<Rightarrow> bool" where
  "own_state E g i c \<longleftrightarrow>
     c = AwaitSources \<or> (\<exists>t. (i, t) \<in> E \<and> (c = AwaitStore (g t) t \<or> c = Returned (g t)))"

definition unshared :: "(nat \<times> int) set \<Rightarrow> (int \<Rightarrow> BriefData) \<Rightarrow> world \<Rightarrow> bool" where
  "unshared E g w \<longleftrightarrow>
     store w = empty_storage
     \<and> generations w = length (filter (\<lambda>c. c \<noteq> AwaitCache) (calls w))
     \<and> (\<forall>i<length (calls w). calls w ! i = AwaitCache \<or> own_state E g i (calls w ! i))"

definition all_own :: "(nat \<times> int) set \<Rightarrow> (int \<Rightarrow> BriefData) \<Rightarrow> nat \<Rightarrow> world \<Rightarrow> bool" where
  "all_own E g n w \<longleftrightarrow>
     generations w = n \<and> length (calls w) = n
     \<and> (\<forall>i<length (calls w). own_state E g i (calls w ! i))"

section \<open>Ranking (GmailService.rankThreads)\<close>

lemma js_sort_sort_key:
  assumes "\<And>a b. cmp a b \<le> 0 \<longleftrightarrow> key a \<le> key b"
  shows "js_sort cmp xs = sort_key key xs"
proof -
  have ins: "insert_by cmp x ys = insort_key key x ys" for x ys
    by (induction ys) (simp_all add: assms)
  show ?thesis
    unfolding js_sort_def sort_key_def
    by (induction xs) (simp_all add: ins)
qed


lemma js_sort_Cons: "js_sort cmp (x # xs) = insert_by cmp x (js_sort cmp xs)"
  by (simp add: js_sort_def)

lemma mset_insert_by: "mset (insert_by cmp x ys) = add_mset x (mset ys)"
  by (induction ys) simp_all

lemma mset_js_sort: "mset (js_sort cmp xs) = mset xs"
  by (induction xs) (simp_all add: js_sort_Cons mset_insert_by, simp add: js_sort_def)









lemma tie_with_rationale: "tie k (with_rationale now t) = tie k t"
  by (simp add: with_rationale_def tie_def)

lemma rankThreads_mset: "mset (rankThreads now xs) = mset (map (with_rationale now) xs)"
  by (simp add: rankThreads_def mset_js_sort)






text \<open>
  A thread with an invalid date makes the comparator inconsistent: it compares as equal
  to both of its neighbours, which differ. The sort then leaves the thread dated 2000
  behind the thread dated 1000.
\<close>

lemma rankThreads_invalid_date:
  "map thread_id (rankThreads 0 [thread_old, thread_nodate, thread_new])
     = [''old'', ''nodate'', ''new'']"
  by (simp add: rankThreads_def js_sort_def rank_cmp_def nan_as_zero_def with_rationale_def
        thread_old_def thread_nodate_def thread_new_def thread_a_def importanceWeight_def)




section \<open>Urgency and importance (GmailService)\<close>

lemma startsWith_iff: "startsWith s k \<longleftrightarrow> (\<exists>q. s = k @ q)"
  by (induction s k rule: startsWith.induct) auto

text \<open>\<open>includes_str\<close> is the substring test.\<close>

lemma includes_str_iff: "includes_str s k \<longleftrightarrow> (\<exists>p q. s = p @ k @ q)"
proof (induction s)
  case Nil
  then show ?case by simp
next
  case (Cons c cs)
  show ?case
  proof
    assume "includes_str (c # cs) k"
    then consider "startsWith (c # cs) k" | "includes_str cs k"
      by auto
    then show "\<exists>p q. c # cs = p @ k @ q"
    proof cases
      case 1
      then obtain q where "c # cs = k @ q"
        by (auto simp: startsWith_iff)
      then have "c # cs = [] @ k @ q"
        by simp
      then show ?thesis by blast
    next
      case 2
      then obtain p q where "cs = p @ k @ q"
        using Cons.IH by blast
      then have "c # cs = (c # p) @ k @ q"
        by simp
      then show ?thesis by blast
    qed
  next
    assume "\<exists>p q. c # cs = p @ k @ q"
    then obtain p q where pq: "c # cs = p @ k @ q"
      by blast
    show "includes_str (c # cs) k"
    proof (cases p)
      case Nil
      with pq have "startsWith (c # cs) k"
        by (auto simp: startsWith_iff)
      then show ?thesis by simp
    next
      case (Cons a p')
      with pq have "cs = p' @ k @ q"
        by simp
      then have "includes_str cs k"
        using Cons.IH by blast
      then show ?thesis by simp
    qed
  qed
qed

lemma signal_bounds:
  "0 \<le> recency_signal now d \<and> recency_signal now d \<le> 3"
  "0 \<le> label_signal l m \<and> label_signal l m \<le> 2"
  "0 \<le> keyword_signal s \<and> keyword_signal s \<le> 3"
  by (simp_all add: recency_signal_def label_signal_def keyword_signal_def split: option.splits)

text \<open>
  What \<open>calculateUrgencyScore\<close> computes: the recency and the labels of the latest
  message and the keyword signal of the value that the first message has under the
  header name \<open>Subject\<close>, capped at 10.
\<close>

lemma calculateUrgencyScore_formula:
  "calculateUrgencyScore now td =
     (case thread_messages td of
        [] \<Rightarrow> Inl TypeError
      | m # ms \<Rightarrow>
          Inr (min (recency_signal now (internalDate (last (m # ms)))
                    + label_signal ''UNREAD'' (last (m # ms))
                    + label_signal ''IMPORTANT'' (last (m # ms))
                    + keyword_signal (header_value ''Subject'' m)) 10))"
proof (cases "thread_messages td")
  case Nil
  then show ?thesis
    by (simp add: calculateUrgencyScore_def)
next
  case (Cons m ms)
  then have "calculateUrgencyScore now td =
     Inr (min (recency_signal now (internalDate (last (m # ms)))
               + label_signal ''UNREAD'' (last (m # ms))
               + label_signal ''IMPORTANT'' (last (m # ms))
               + keyword_signal (header_value ''Subject'' m)) 10)"
    unfolding calculateUrgencyScore_def recency_signal_def label_signal_def
      keyword_signal_def Let_def
    by (simp split: option.splits)
  with Cons show ?thesis by simp
qed

lemma calculateUrgencyScore_bounds:
  assumes "calculateUrgencyScore now td = Inr s"
  shows "0 \<le> s \<and> s \<le> 10"
proof (cases "thread_messages td")
  case Nil
  with assms show ?thesis
    by (simp add: calculateUrgencyScore_formula)
next
  case (Cons m ms)
  with assms have "s = min (recency_signal now (internalDate (last (m # ms)))
                    + label_signal ''UNREAD'' (last (m # ms))
                    + label_signal ''IMPORTANT'' (last (m # ms))
                    + keyword_signal (header_value ''Subject'' m)) 10"
    by (simp add: calculateUrgencyScore_formula)
  then show ?thesis
    using signal_bounds(1) [of now "internalDate (last (m # ms))"]
      signal_bounds(2) [of "''UNREAD''" "last (m # ms)"]
      signal_bounds(2) [of "''IMPORTANT''" "last (m # ms)"]
      signal_bounds(3) [of "header_value ''Subject'' m"]
    by linarith
qed

text \<open>
  The score is the urgency of the specification on the threads where the first message
  has, under the header name \<open>Subject\<close>, the subject text of the latest message.
\<close>

lemma calculateUrgencyScore_spec_urgency:
  assumes "thread_messages td = m # ms"
    and "header_value ''Subject'' m = subject_text (last (m # ms))"
  shows "calculateUrgencyScore now td = Inr (spec_urgency now (last (m # ms)))"
  using assms by (simp add: calculateUrgencyScore_formula spec_urgency_def)

text \<open>The fields of the thread that \<open>parseThread\<close> builds.\<close>

lemma parseThread_fields:
  assumes "thread_messages td = m # ms"
    and "calculateUrgencyScore now_score td = Inr s"
    and "calculateImportance now_tier td = Inr i"
  shows "map_option urgencyScore (parseThread now_score now_tier td) = Some s"
    and "map_option importance (parseThread now_score now_tier td) = Some i"
    and "map_option lastMessageDate (parseThread now_score now_tier td)
           = Some (internalDate (last (m # ms)))"
    and "map_option subject (parseThread now_score now_tier td)
           = Some (if subject_text (last (m # ms)) = [] then ''No Subject''
                   else subject_text (last (m # ms)))"
    and "map_option participants (parseThread now_score now_tier td)
           = Some (filter (\<lambda>e. e \<noteq> [])
                     (map extractEmailAddress
                        (filter (\<lambda>e. e \<noteq> [])
                           [getHeader (case headers (last (m # ms)) of None \<Rightarrow> [] | Some l \<Rightarrow> l)
                              ''From'',
                            getHeader (case headers (last (m # ms)) of None \<Rightarrow> [] | Some l \<Rightarrow> l)
                              ''To''])))"
proof -
  obtain a where a: "determineActionRequired td = Inr a"
    using assms(1) by (simp add: determineActionRequired_def)
  note p = parseThread_def assms a subject_text_def Let_def
  show "map_option urgencyScore (parseThread now_score now_tier td) = Some s"
    by (simp add: p)
  show "map_option importance (parseThread now_score now_tier td) = Some i"
    by (simp add: p)
  show "map_option lastMessageDate (parseThread now_score now_tier td)
           = Some (internalDate (last (m # ms)))"
    by (simp add: p)
  show "map_option subject (parseThread now_score now_tier td)
           = Some (if subject_text (last (m # ms)) = [] then ''No Subject''
                   else subject_text (last (m # ms)))"
    by (simp add: p)
  show "map_option participants (parseThread now_score now_tier td)
           = Some (filter (\<lambda>e. e \<noteq> [])
                     (map extractEmailAddress
                        (filter (\<lambda>e. e \<noteq> [])
                           [getHeader (case headers (last (m # ms)) of None \<Rightarrow> [] | Some l \<Rightarrow> l)
                              ''From'',
                            getHeader (case headers (last (m # ms)) of None \<Rightarrow> [] | Some l \<Rightarrow> l)
                              ''To''])))"
    by (simp add: p)
qed

lemma calculateImportance_score:
  assumes "calculateUrgencyScore now td = Inr s"
  shows "calculateImportance now td =
     Inr (if s \<ge> 7 \<or> isVIPSender (getFromEmail td) then high
          else if s \<ge> 4 then medium else low)"
  using assms by (simp add: calculateImportance_def)

text \<open>The sample threads, evaluated.\<close>

lemma lower_subject: "toLowerCase ''URGENT: server down'' = ''urgent: server down''"
  by (simp add: toLowerCase_def lower_char_def capitals_def smalls_def)

lemma keyword_signal_samples:
  "keyword_signal ''URGENT: server down'' = 3"
  "keyword_signal ''Hello'' = 0"
  "keyword_signal [] = 0"
  by (simp_all add: keyword_signal_def lower_subject urgentKeywords_def,
      simp_all add: toLowerCase_def lower_char_def capitals_def smalls_def)

lemma lowercase_subject_thread_messages:
  "thread_messages lowercase_subject_thread
     = [message None [''INBOX'', ''UNREAD''] [(''subject'', ''URGENT: server down'')]]"
  by (simp add: thread_messages_def lowercase_subject_thread_def one_message_def)

lemma subject_thread_messages:
  "thread_messages subject_thread
     = [message None [''INBOX'', ''UNREAD''] [(''Subject'', ''URGENT: server down'')]]"
  by (simp add: thread_messages_def subject_thread_def one_message_def)

lemma changed_subject_thread_messages:
  "thread_messages changed_subject_thread
     = [message None [''INBOX''] [(''Subject'', ''Hello'')],
        message None [''INBOX'', ''UNREAD''] [(''Subject'', ''URGENT: server down'')]]"
  by (simp add: thread_messages_def changed_subject_thread_def)

lemma message_signals:
  "internalDate (message d ls hs) = d"
  "label_signal l (message d ls hs) = (if l \<in> set ls then 2 else 0)"
  by (simp_all add: message_def label_signal_def has_label_def)

lemma header_value_samples:
  "header_value ''Subject'' (message d ls [(''subject'', v)]) = []"
  "header_value ''Subject'' (message d ls [(''Subject'', v)]) = v"
  by (simp_all add: header_value_def message_def)

lemma subject_text_samples:
  "subject_text (message d ls [(''subject'', v)]) = v"
  "subject_text (message d ls [(''Subject'', v)]) = v"
  by (simp_all add: subject_text_def getHeader_def message_def toLowerCase_def lower_char_def
        capitals_def smalls_def)

lemma sample_scores:
  "calculateUrgencyScore 0 lowercase_subject_thread = Inr 2"
  "calculateUrgencyScore 0 subject_thread = Inr 5"
  "calculateUrgencyScore 0 changed_subject_thread = Inr 2"
  by (simp_all add: calculateUrgencyScore_formula lowercase_subject_thread_messages
        subject_thread_messages changed_subject_thread_messages message_signals
        header_value_samples keyword_signal_samples recency_signal_def)

lemma sample_spec_urgency:
  "spec_urgency 0 (last (thread_messages lowercase_subject_thread)) = 5"
  "spec_urgency 0 (last (thread_messages subject_thread)) = 5"
  "spec_urgency 0 (last (thread_messages changed_subject_thread)) = 5"
  by (simp_all add: spec_urgency_def lowercase_subject_thread_messages
        subject_thread_messages changed_subject_thread_messages message_signals
        subject_text_samples keyword_signal_samples recency_signal_def)

text \<open>
  Claim C3 does not hold of the code. The keyword signal is not read from the subject
  of the thread: \<open>calculateUrgencyScore\<close> looks in the first message for a header named
  exactly \<open>Subject\<close>, whereas \<open>parseThread\<close>, which calls it, reads the subject from the
  latest message under any capitalisation of the header name. A thread whose only
  message is unread and carries the subject \<open>URGENT: server down\<close> under the header name
  \<open>subject\<close> is reported with that subject and the score 2; the signals of the claim sum
  to 5, which is the score when the header is named \<open>Subject\<close>. A thread that starts with
  the subject \<open>Hello\<close> and whose latest message has the subject \<open>URGENT: server down\<close> is
  reported with the latter and scores 2 as well.
\<close>

theorem calculateUrgencyScore_misses_subject:
  "map_option subject (parseThread 0 0 lowercase_subject_thread) = Some ''URGENT: server down''
   \<and> map_option urgencyScore (parseThread 0 0 lowercase_subject_thread) = Some 2
   \<and> spec_urgency 0 (last (thread_messages lowercase_subject_thread)) = 0 + 2 + 0 + 3
   \<and> calculateUrgencyScore 0 subject_thread = Inr 5
   \<and> spec_urgency 0 (last (thread_messages subject_thread)) = 5
   \<and> map_option subject (parseThread 0 0 changed_subject_thread) = Some ''URGENT: server down''
   \<and> map_option urgencyScore (parseThread 0 0 changed_subject_thread) = Some 2
   \<and> spec_urgency 0 (last (thread_messages changed_subject_thread)) = 5"
proof -
  have a: "map_option subject (parseThread 0 0 lowercase_subject_thread)
        = Some ''URGENT: server down''"
    and b: "map_option urgencyScore (parseThread 0 0 lowercase_subject_thread) = Some 2"
    using parseThread_fields(4,1)
      [OF lowercase_subject_thread_messages sample_scores(1)
        calculateImportance_score [OF sample_scores(1)]]
    by (simp_all add: subject_text_samples)
  have c: "map_option subject (parseThread 0 0 changed_subject_thread)
        = Some ''URGENT: server down''"
    and d: "map_option urgencyScore (parseThread 0 0 changed_subject_thread) = Some 2"
    using parseThread_fields(4,1)
      [OF changed_subject_thread_messages sample_scores(3)
        calculateImportance_score [OF sample_scores(3)]]
    by (simp_all add: subject_text_samples)
  show ?thesis
    using a b c d sample_scores(2) sample_spec_urgency by simp
qed

lemma spec_importance_cases:
  "(spec_importance u d = high \<longleftrightarrow> u \<ge> 7 \<or> (\<exists>x. d = Some x \<and> x \<in> set vipDomains))
   \<and> (spec_importance u d = medium \<longleftrightarrow>
        \<not> (u \<ge> 7 \<or> (\<exists>x. d = Some x \<and> x \<in> set vipDomains)) \<and> u \<ge> 4)
   \<and> (spec_importance u d = low \<longleftrightarrow> u < 4 \<and> \<not> (\<exists>x. d = Some x \<and> x \<in> set vipDomains))"
  by (auto simp: spec_importance_def)

text \<open>
  What \<open>calculateImportance\<close> computes: the rule of the specification, applied to the
  score at its own reading of the clock and to the domain of the address that
  \<open>getFromEmail\<close> extracts from the first message's header named \<open>From\<close>.
\<close>

lemma calculateImportance_formula:
  "calculateImportance now td =
     (case calculateUrgencyScore now td of
        Inl e \<Rightarrow> Inl e
      | Inr u \<Rightarrow> Inr (spec_importance u (sender_domain (getFromEmail td))))"
  by (auto simp: calculateImportance_def spec_importance_def isVIPSender_def Let_def
      split: sum.splits option.splits)

lemma extractEmailAddress_samples:
  "extractEmailAddress ''Ann <ann@company.com>'' = ''ann@company.com''"
  "extractEmailAddress ''Boss <boss@client.com>'' = ''boss@client.com''"
  "extractEmailAddress ''Ann <ann@Client.com>'' = ''ann@Client.com''"
  "extractEmailAddress ''ann@company.com, bob@x.org'' = ''ann@company.com,''"
  "extractEmailAddress ''me@example.org'' = ''me@example.org''"
  "extractEmailAddress ''bob@example.org'' = ''bob@example.org''"
  "extractEmailAddress [] = []"
  by (simp_all add: extractEmailAddress_def addr_char_def is_space_def)

text \<open>A no-break space ends an address, as a space does.\<close>

lemma extractEmailAddress_no_break_space:
  "extractEmailAddress (''ann@company.com'' @ [CHR 0xA0] @ ''(Ann)'') = ''ann@company.com''"
  by (simp add: extractEmailAddress_def addr_char_def is_space_def)

lemma isVIPSender_samples:
  "isVIPSender ''ann@company.com''"
  "isVIPSender ''boss@client.com''"
  "isVIPSender ''ann@Client.com''"
  "\<not> isVIPSender ''ann@company.com,''"
  "\<not> isVIPSender ''me@example.org''"
  "\<not> isVIPSender ''bob@example.org''"
  "\<not> isVIPSender []"
  by (simp_all add: isVIPSender_def sender_domain_def vipDomains_def toLowerCase_def
        lower_char_def capitals_def smalls_def)

lemma lowercase_from_thread_messages:
  "thread_messages lowercase_from_thread
     = [message None [''INBOX''] [(''from'', ''Ann <ann@company.com>'')]]"
  by (simp add: thread_messages_def lowercase_from_thread_def one_message_def)

lemma two_address_thread_messages:
  "thread_messages two_address_thread
     = [message None [''INBOX''] [(''From'', ''ann@company.com, bob@x.org'')]]"
  by (simp add: thread_messages_def two_address_thread_def one_message_def)

lemma answered_thread_messages:
  "thread_messages answered_thread
     = [message None [''INBOX''] [(''From'', ''me@example.org'')],
        message None [''INBOX''] [(''From'', ''Boss <boss@client.com>'')]]"
  by (simp add: thread_messages_def answered_thread_def)

lemma two_hour_thread_messages:
  "thread_messages two_hour_thread
     = [message (Some 0) [''UNREAD'', ''IMPORTANT''] [(''From'', ''bob@example.org'')]]"
  by (simp add: thread_messages_def two_hour_thread_def one_message_def)

lemma vip_thread_messages:
  "thread_messages vip_thread
     = [\<lparr>internalDate = None, labelIds = None,
         headers = Some [\<lparr>hname = ''From'', hvalue = Some ''Ann <ann@Client.com>''\<rparr>],
         msnippet = None\<rparr>]"
  by (simp add: thread_messages_def vip_thread_def one_message_def)

lemma header_value_from_samples:
  "header_value ''Subject'' (message d ls [(''from'', v)]) = []"
  "header_value ''Subject'' (message d ls [(''From'', v)]) = []"
  "header_value ''From'' (message d ls [(''from'', v)]) = []"
  "header_value ''From'' (message d ls [(''From'', v)]) = v"
  by (simp_all add: header_value_def message_def)

lemma getHeader_from_samples:
  "getHeader [\<lparr>hname = ''from'', hvalue = Some v\<rparr>] ''From'' = v"
  "getHeader [\<lparr>hname = ''From'', hvalue = Some v\<rparr>] ''From'' = v"
  "getHeader [\<lparr>hname = ''from'', hvalue = Some v\<rparr>] ''To'' = []"
  "getHeader [\<lparr>hname = ''From'', hvalue = Some v\<rparr>] ''To'' = []"
  by (simp_all add: getHeader_def toLowerCase_def lower_char_def capitals_def smalls_def)

lemma getFromEmail_samples:
  "getFromEmail lowercase_from_thread = []"
  "getFromEmail two_address_thread = ''ann@company.com,''"
  "getFromEmail answered_thread = ''me@example.org''"
  "getFromEmail two_hour_thread = ''bob@example.org''"
  "getFromEmail vip_thread = ''ann@Client.com''"
  by (simp_all add: getFromEmail_def lowercase_from_thread_def two_address_thread_def
        answered_thread_def two_hour_thread_def vip_thread_def one_message_def
        header_value_from_samples extractEmailAddress_samples,
      simp add: header_value_def extractEmailAddress_samples)

lemma sender_scores:
  "calculateUrgencyScore 0 lowercase_from_thread = Inr 0"
  "calculateUrgencyScore 0 two_address_thread = Inr 0"
  "calculateUrgencyScore 0 answered_thread = Inr 0"
  "calculateUrgencyScore (2 * hour_ms - 1) two_hour_thread = Inr 7"
  "calculateUrgencyScore (2 * hour_ms) two_hour_thread = Inr 6"
  by (simp_all add: calculateUrgencyScore_formula lowercase_from_thread_messages
        two_address_thread_messages answered_thread_messages two_hour_thread_messages
        message_signals header_value_from_samples keyword_signal_samples recency_signal_def
        hour_ms_def)

lemma vip_thread_score: "calculateUrgencyScore 0 vip_thread = Inr 0"
  by (simp add: calculateUrgencyScore_formula vip_thread_messages recency_signal_def
        label_signal_def has_label_def header_value_def keyword_signal_samples)

text \<open>
  Claim C4 does not hold of the code: the tier does not follow the sender's domain.
  \<open>getFromEmail\<close> looks in the first message for a header named exactly \<open>From\<close>, whereas
  \<open>parseThread\<close> reads the sender from the latest message under any capitalisation of
  the header name; and the second pattern of \<open>extractEmailAddress\<close> keeps the comma that
  follows an address. A message from \<open>ann@company.com\<close> under the header name \<open>from\<close> is
  reported with that participant and the tier low; a From header that lists
  \<open>ann@company.com\<close> before a second address gives the domain \<open>company.com,\<close> and the
  tier low; a thread whose latest message comes from \<open>boss@client.com\<close> in answer to a
  message from elsewhere is low. With the header name \<open>From\<close> and one address the VIP
  sender is high. Moreover \<open>parseThread\<close> takes the tier from a second computation of
  the score at a later reading of the clock, so a thread can carry the score 7 and the
  tier medium.
\<close>

theorem calculateImportance_misses_vip_sender:
  "map_option participants (parseThread 0 0 lowercase_from_thread) = Some [''ann@company.com'']
   \<and> isVIPSender ''ann@company.com''
   \<and> map_option importance (parseThread 0 0 lowercase_from_thread) = Some low
   \<and> getFromEmail two_address_thread = ''ann@company.com,''
   \<and> calculateImportance 0 two_address_thread = Inr low
   \<and> map_option participants (parseThread 0 0 answered_thread) = Some [''boss@client.com'']
   \<and> isVIPSender ''boss@client.com''
   \<and> map_option importance (parseThread 0 0 answered_thread) = Some low
   \<and> calculateImportance 0 vip_thread = Inr high
   \<and> map_option urgencyScore (parseThread (2 * hour_ms - 1) (2 * hour_ms) two_hour_thread)
       = Some 7
   \<and> map_option importance (parseThread (2 * hour_ms - 1) (2 * hour_ms) two_hour_thread)
       = Some medium"
proof -
  have tiers:
    "calculateImportance 0 lowercase_from_thread = Inr low"
    "calculateImportance 0 two_address_thread = Inr low"
    "calculateImportance 0 answered_thread = Inr low"
    "calculateImportance 0 vip_thread = Inr high"
    "calculateImportance (2 * hour_ms) two_hour_thread = Inr medium"
    by (simp_all add: calculateImportance_score [OF sender_scores(1)]
          calculateImportance_score [OF sender_scores(2)]
          calculateImportance_score [OF sender_scores(3)]
          calculateImportance_score [OF sender_scores(5)]
          calculateImportance_score [OF vip_thread_score]
          getFromEmail_samples isVIPSender_samples)
  have a: "map_option participants (parseThread 0 0 lowercase_from_thread)
        = Some [''ann@company.com'']"
    and b: "map_option importance (parseThread 0 0 lowercase_from_thread) = Some low"
    using parseThread_fields(5,2)
      [OF lowercase_from_thread_messages sender_scores(1) tiers(1)]
    by (simp_all add: message_def getHeader_from_samples extractEmailAddress_samples)
  have c: "map_option participants (parseThread 0 0 answered_thread)
        = Some [''boss@client.com'']"
    and d: "map_option importance (parseThread 0 0 answered_thread) = Some low"
    using parseThread_fields(5,2) [OF answered_thread_messages sender_scores(3) tiers(3)]
    by (simp_all add: message_def getHeader_from_samples extractEmailAddress_samples)
  have e: "map_option urgencyScore
             (parseThread (2 * hour_ms - 1) (2 * hour_ms) two_hour_thread) = Some 7"
    and f: "map_option importance
             (parseThread (2 * hour_ms - 1) (2 * hour_ms) two_hour_thread) = Some medium"
    using parseThread_fields(1,2) [OF two_hour_thread_messages sender_scores(4) tiers(5)]
    by simp_all
  show ?thesis
    using a b c d e f tiers(2,4) getFromEmail_samples(2) isVIPSender_samples(1,2) by simp
qed

section \<open>Conflict detection (CalendarService.detectConflicts)\<close>

lemma frame_flag [simp]: "frame (e\<lparr>conflicts := b\<rparr>) = frame e"
  by (simp add: frame_def)


lemma map_update_same:
  "f x = f (xs ! k) \<Longrightarrow> map f (xs[k := x]) = map f xs"
  by (cases "k < length xs") (auto simp: list_eq_iff_nth_eq nth_list_update)


lemma inner_length [simp]: "length (conflicts_inner i j es) = length es"
  by (induction i j es rule: conflicts_inner.induct)
     (subst conflicts_inner.simps, simp add: Let_def)

lemma inner_step:
  "conflicts_inner i j es = (if j < length es then conflicts_inner i (j + 1) (mark i j es) else es)"
  by (subst conflicts_inner.simps) (simp add: Let_def mark_def)

lemma mark_length [simp]: "length (mark i j es) = length es"
  by (simp add: mark_def)

lemma mark_frame: "map frame (mark i j es) = map frame es"
proof (cases "eventsOverlap (es ! i) (es ! j)")
  case False
  then show ?thesis by (simp add: mark_def)
next
  case True
  let ?es1 = "es[i := (es ! i)\<lparr>conflicts := True\<rparr>]"
  have 1: "map frame ?es1 = map frame es"
    by (rule map_update_same) simp
  have "frame ((es ! j)\<lparr>conflicts := True\<rparr>) = frame (?es1 ! j)"
    by (cases "i < length es") (simp_all add: nth_list_update list_update_beyond)
  then have "map frame (?es1[j := (es ! j)\<lparr>conflicts := True\<rparr>]) = map frame ?es1"
    by (rule map_update_same)
  with 1 True show ?thesis by (simp add: mark_def)
qed


lemma inner_frame: "map frame (conflicts_inner i j es) = map frame es"
proof (induction i j es rule: conflicts_inner.induct)
  case (1 i j es)
  show ?case
  proof (cases "j < length es")
    case False
    then show ?thesis by (subst inner_step) simp
  next
    case True
    have "map frame (conflicts_inner i (j + 1) (mark i j es)) = map frame (mark i j es)"
      using "1.IH" [OF True refl refl] by (simp add: mark_def)
    then show ?thesis
      using True by (subst inner_step) (simp add: mark_frame)
  qed
qed



lemma outer_step:
  "conflicts_outer i es =
     (if i < length es then conflicts_outer (i + 1) (conflicts_inner i (i + 1) es) else es)"
  by (subst conflicts_outer.simps) simp

lemma outer_frame: "map frame (conflicts_outer i es) = map frame es"
proof (induction i es rule: conflicts_outer.induct)
  case (1 i es)
  show ?case
  proof (cases "i < length es")
    case False
    then show ?thesis by (subst outer_step) simp
  next
    case True
    then show ?thesis
      using "1.IH" [OF True] by (subst outer_step) (simp add: inner_frame)
  qed
qed

lemma outer_length [simp]: "length (conflicts_outer i es) = length es"
  using outer_frame [of i es] by (rule map_eq_imp_length_eq)






lemma start_cmp_key: "start_cmp a b \<le> 0 \<longleftrightarrow> start a \<le> start b"
  by (simp add: start_cmp_def)

lemma js_sort_start: "js_sort start_cmp es = sort_key start es"
  by (rule js_sort_sort_key) (rule start_cmp_key)

lemma detectConflicts_frame:
  "map frame (detectConflicts events) = map frame (js_sort start_cmp events)"
  by (simp add: detectConflicts_def outer_frame)

lemma detectConflicts_length [simp]: "length (detectConflicts events) = length events"
  using detectConflicts_frame [of events] 
  by (metis length_map length_sort js_sort_start)









text \<open>
  Claim C10: the output of \<open>detectConflicts\<close> holds exactly the input events, none added,
  dropped or duplicated, and each event has its id, title, start, end, description and
  location unchanged.
\<close>

theorem detectConflicts_preserves_events:
  "mset (map frame (detectConflicts events)) = mset (map frame events)
   \<and> length (detectConflicts events) = length events"
proof -
  have "mset (map frame (detectConflicts events)) = mset (map frame (sort_key start events))"
    by (simp add: detectConflicts_frame js_sort_start)
  also have "\<dots> = mset (map frame events)"
    by simp
  finally show ?thesis
    by simp
qed

section \<open>Cache and brief generation (BriefService)\<close>

lemma generateBrief_generated:
  "generateBrief clk settings es cs st =
     (case getCachedBrief (t_check clk) st of
        (Some cachedBrief, st') \<Rightarrow> (Inr cachedBrief, st')
      | (None, st') \<Rightarrow>
          (Inr (generated clk settings es cs),
           cacheBrief (t_store clk) (generated clk settings es cs) st'))"
  by (simp add: generateBrief_def generated_def Let_def split: prod.splits option.splits)

lemma getCachedBrief_hit_iff:
  assumes "available st"
  shows "fst (getCachedBrief now st) = Some b \<longleftrightarrow>
     cached_brief_data st = Some b
     \<and> (\<exists>t. brief_timestamp st = Some t \<and> now - t \<le> BRIEF_CACHE_DURATION)"
  using assms by (auto simp: getCachedBrief_def split: option.splits)

lemma getCachedBrief_expired:
  assumes "available st" "cached_brief_data st = Some b" "brief_timestamp st = Some t"
    "now - t > BRIEF_CACHE_DURATION"
  shows "getCachedBrief now st = (None, st\<lparr>cached_brief_data := None, brief_timestamp := None\<rparr>)"
  using assms by (simp add: getCachedBrief_def clearCache_def)

lemma getCachedBrief_partial:
  assumes "cached_brief_data st = None \<or> brief_timestamp st = None"
  shows "getCachedBrief now st = (None, st)"
  using assms by (auto simp: getCachedBrief_def split: option.splits)

text \<open>
  Claim C5: with a readable store, \<open>getCachedBrief\<close> returns the stored brief iff both
  entries are present and the age is at most five minutes; an older pair of entries is
  removed and a miss returned, so that a call of \<open>generateBrief\<close> six minutes after the
  entry was stored generates a new brief; with one entry missing the result is a miss.
\<close>

theorem getCachedBrief_ttl:
  assumes "available st"
  shows "(fst (getCachedBrief now st) = Some b \<longleftrightarrow>
            cached_brief_data st = Some b
            \<and> (\<exists>t. brief_timestamp st = Some t \<and> now - t \<le> 5 * 60 * 1000))
   \<and> (cached_brief_data st = Some b \<and> brief_timestamp st = Some t \<and> now - t > 5 * 60 * 1000
        \<longrightarrow> getCachedBrief now st
              = (None, st\<lparr>cached_brief_data := None, brief_timestamp := None\<rparr>))
   \<and> (cached_brief_data st = None \<or> brief_timestamp st = None
        \<longrightarrow> getCachedBrief now st = (None, st))
   \<and> (t_check clk = T + 6 * 60 * 1000
        \<longrightarrow> generateBrief clk settings es cs (cacheBrief T b st)
              = (Inr (generated clk settings es cs),
                 cacheBrief (t_store clk) (generated clk settings es cs) st))"
proof -
  have d: "BRIEF_CACHE_DURATION = 5 * 60 * 1000"
    by (simp add: BRIEF_CACHE_DURATION_def)
  have six: "generateBrief clk settings es cs (cacheBrief T b st)
      = (Inr (generated clk settings es cs),
         cacheBrief (t_store clk) (generated clk settings es cs) st)"
    if "t_check clk = T + 6 * 60 * 1000"
  proof -
    have "getCachedBrief (t_check clk) (cacheBrief T b st)
        = (None, st\<lparr>cached_brief_data := None, brief_timestamp := None\<rparr>)"
      using that assms
      by (simp add: getCachedBrief_def cacheBrief_def clearCache_def BRIEF_CACHE_DURATION_def)
    then show ?thesis
      using assms by (simp add: generateBrief_generated cacheBrief_def)
  qed
  show ?thesis
    using getCachedBrief_hit_iff [of st now b, OF assms] getCachedBrief_expired [of st b t now, OF assms]
      getCachedBrief_partial [of st now] six
    unfolding d by blast
qed

theorem getCachedBrief_ttl_witness:
  "available (cacheBrief 0 old_brief empty_storage)
   \<and> getCachedBrief 300000 (cacheBrief 0 old_brief empty_storage)
       = (Some old_brief, cacheBrief 0 old_brief empty_storage)
   \<and> getCachedBrief 360000 (cacheBrief 0 old_brief empty_storage) = (None, empty_storage)
   \<and> getCachedBrief 1 (empty_storage\<lparr>cached_brief_data := Some old_brief\<rparr>)
       = (None, empty_storage\<lparr>cached_brief_data := Some old_brief\<rparr>)
   \<and> fst (generateBrief (at_time 360000) None two_account_source no_events
            (cacheBrief 0 old_brief empty_storage))
       = Inr (generated (at_time 360000) None two_account_source no_events)"
proof -
  let ?st = "cacheBrief 0 old_brief empty_storage"
  let ?p = "empty_storage\<lparr>cached_brief_data := Some old_brief\<rparr>"
  have a: "available ?st" "available empty_storage" "available ?p"
    by (simp_all add: cacheBrief_def empty_storage_def)
  have f: "cached_brief_data ?st = Some old_brief" "brief_timestamp ?st = Some 0"
    by (simp_all add: cacheBrief_def empty_storage_def)
  have c: "?st\<lparr>cached_brief_data := None, brief_timestamp := None\<rparr> = empty_storage"
    by (simp add: cacheBrief_def empty_storage_def)
  have hit: "fst (getCachedBrief 300000 ?st) = Some old_brief"
    using getCachedBrief_ttl [of ?st 300000 old_brief, OF a(1)] f by simp
  have same: "snd (getCachedBrief 300000 ?st) = ?st"
    by (simp add: getCachedBrief_def BRIEF_CACHE_DURATION_def cacheBrief_def empty_storage_def)
  have miss: "getCachedBrief 360000 ?st = (None, empty_storage)"
    using getCachedBrief_ttl [of ?st 360000 old_brief 0, OF a(1)] f c by simp
  have part: "getCachedBrief 1 ?p = (None, ?p)"
    using getCachedBrief_ttl [of ?p 1, OF a(3)] by (simp add: empty_storage_def)
  have gen: "fst (generateBrief (at_time 360000) None two_account_source no_events ?st)
      = Inr (generated (at_time 360000) None two_account_source no_events)"
    using getCachedBrief_ttl [of empty_storage _ old_brief _ "at_time 360000" 0 None
        two_account_source no_events, OF a(2)]
    by (simp add: at_time_def)
  show ?thesis
    using a(1) hit same miss part gen by (simp add: prod_eq_iff)
qed

lemma take3_prefix: "top_is_prefix b \<longleftrightarrow> topEmails b = take 3 (allEmails b)"
proof
  assume "top_is_prefix b"
  then obtain rest where r: "allEmails b = topEmails b @ rest"
    and l: "length (topEmails b) = min 3 (length (allEmails b))"
    unfolding top_is_prefix_def by blast
  have "take 3 (allEmails b) = take (length (topEmails b)) (allEmails b)"
    using l by (simp add: min_def split: if_splits)
  also have "\<dots> = topEmails b"
    by (simp add: r)
  finally show "topEmails b = take 3 (allEmails b)"
    by simp
next
  assume t: "topEmails b = take 3 (allEmails b)"
  have "allEmails b = topEmails b @ drop 3 (allEmails b)"
    by (simp add: t)
  then show "top_is_prefix b"
    unfolding top_is_prefix_def using t by (metis length_take min.commute)
qed

lemma generated_top: "top_is_prefix (generated clk settings es cs)"
  by (simp add: take3_prefix generated_def)

lemma getCachedBrief_store:
  "getCachedBrief now st = (r, st') \<Longrightarrow> st' = st \<or> st' = clearCache st"
  by (auto simp: getCachedBrief_def split: if_splits option.splits)

lemma getCachedBrief_data:
  "getCachedBrief now st = (Some b, st') \<Longrightarrow> cached_brief_data st = Some b"
  by (auto simp: getCachedBrief_def split: if_splits option.splits)

lemma store_ok_clear: "store_ok st \<Longrightarrow> store_ok (clearCache st)"
  by (simp add: store_ok_def clearCache_def)

lemma store_ok_cache: "store_ok st \<Longrightarrow> top_is_prefix b \<Longrightarrow> store_ok (cacheBrief t b st)"
  by (simp add: store_ok_def cacheBrief_def)

lemma generateBrief_returns: "\<exists>b. fst (generateBrief clk settings es cs st) = Inr b"
  by (simp add: generateBrief_generated split: prod.splits option.splits)

text \<open>
  Claim C7: in every \<open>BriefData\<close> that \<open>generateBrief\<close> assembles, \<open>topEmails\<close> is a prefix
  of \<open>allEmails\<close> of length \<open>min 3 |allEmails|\<close>; the cache holds only such briefs, so every
  brief that \<open>generateBrief\<close> returns, cached or new, has the property.
\<close>

theorem generateBrief_top_prefix:
  "top_is_prefix (generated clk settings es cs)
   \<and> store_ok empty_storage
   \<and> (store_ok st \<longrightarrow>
        (\<exists>b. fst (generateBrief clk settings es cs st) = Inr b \<and> top_is_prefix b)
        \<and> store_ok (snd (generateBrief clk settings es cs st)))"
proof -
  have inv: "(\<exists>b. fst (generateBrief clk settings es cs st) = Inr b \<and> top_is_prefix b)
        \<and> store_ok (snd (generateBrief clk settings es cs st))" if ok: "store_ok st"
  proof (cases "getCachedBrief (t_check clk) st")
    case (Pair r st')
    then have st': "store_ok st'"
      using getCachedBrief_store [OF Pair] ok store_ok_clear by auto
    show ?thesis
    proof (cases r)
      case None
      with Pair st' show ?thesis
        by (simp add: generateBrief_generated generated_top store_ok_cache)
    next
      case (Some b)
      with Pair have "cached_brief_data st = Some b"
        using getCachedBrief_data by simp
      with ok have "top_is_prefix b"
        by (simp add: store_ok_def)
      with Pair Some st' show ?thesis
        by (simp add: generateBrief_generated)
    qed
  qed
  have "store_ok empty_storage"
    by (simp add: store_ok_def empty_storage_def)
  with inv generated_top show ?thesis
    by blast
qed

theorem generateBrief_top_prefix_witness:
  "store_ok empty_storage
   \<and> map thread_id (allEmails (generated (at_time 0) None two_account_source no_events))
       = [''a'', ''b'']
   \<and> length (topEmails (generated (at_time 0) None two_account_source no_events)) = 2
   \<and> topEmails (generated (at_time 0) None two_account_source no_events)
       = take 3 (allEmails (generated (at_time 0) None two_account_source no_events))"
proof -
  let ?g = "generated (at_time 0) None two_account_source no_events"
  note T = generateBrief_top_prefix [of "at_time 0" None two_account_source no_events empty_storage]
  have ok: "store_ok empty_storage"
    using T by simp
  have ids: "map thread_id (allEmails ?g) = [''a'', ''b'']"
    by (simp add: generated_def getEmailsFromWindow_def two_account_source_def rankThreads_def
          js_sort_def rank_cmp_def nan_as_zero_def with_rationale_def thread_a_def thread_b_def
          at_time_def)
  have len: "length (allEmails ?g) = 2"
    using arg_cong [OF ids, of length] by simp
  have "length (topEmails ?g) = min 3 (length (allEmails ?g))"
    using T by (simp add: top_is_prefix_def)
  then have top: "length (topEmails ?g) = 2"
    using len by simp
  have "topEmails ?g = take 3 (allEmails ?g)"
    using T by (simp add: take3_prefix)
  with ok ids top show ?thesis
    by simp
qed

lemma generated_allEmails:
  "es (window_or settings emailWindow 96) = Inr threads \<Longrightarrow>
   allEmails (generated clk settings es cs) = rankThreads (t_rank clk) threads"
  by (simp add: generated_def getEmailsFromWindow_def)

lemma generateBrief_miss:
  "fst (getCachedBrief (t_check clk) st) = None \<Longrightarrow>
   generateBrief clk settings es cs st
     = (Inr (generated clk settings es cs),
        cacheBrief (t_store clk) (generated clk settings es cs)
          (snd (getCachedBrief (t_check clk) st)))"
  by (cases "getCachedBrief (t_check clk) st") (simp add: generateBrief_generated)

text \<open>
  Claim C8, as stated, has the pipeline emit one merged thread for two threads with the
  same deduplication key. The source has no deduplication step: \<open>thread_a\<close> and
  \<open>thread_b\<close> have the same subject and participants and different ids, and the brief
  generated from a source that delivers both lists both.
\<close>

theorem generateBrief_keeps_duplicates:
  "dedup_key thread_a = dedup_key thread_b
   \<and> thread_id thread_a \<noteq> thread_id thread_b
   \<and> fst (generateBrief (at_time 0) None two_account_source no_events empty_storage)
       = Inr (generated (at_time 0) None two_account_source no_events)
   \<and> map thread_id (allEmails (generated (at_time 0) None two_account_source no_events))
       = [''a'', ''b'']"
proof -
  have k: "dedup_key thread_a = dedup_key thread_b"
    by (simp add: dedup_key_def thread_a_def thread_b_def)
  have i: "thread_id thread_a \<noteq> thread_id thread_b"
    by (simp add: thread_a_def thread_b_def)
  have m: "fst (getCachedBrief (t_check (at_time 0)) empty_storage) = None"
    by (simp add: getCachedBrief_def empty_storage_def)
  have g: "fst (generateBrief (at_time 0) None two_account_source no_events empty_storage)
      = Inr (generated (at_time 0) None two_account_source no_events)"
    using m by (simp add: generateBrief_miss)
  have "map thread_id (allEmails (generated (at_time 0) None two_account_source no_events))
      = [''a'', ''b'']"
    by (simp add: generated_def getEmailsFromWindow_def two_account_source_def rankThreads_def
          js_sort_def rank_cmp_def nan_as_zero_def with_rationale_def thread_a_def thread_b_def
          at_time_def)
  with k i g show ?thesis
    by simp
qed

text \<open>
  Claim C8, amended: the brief pipeline does not deduplicate. When \<open>generateBrief\<close>
  generates a brief and the email source delivers a list of threads, \<open>allEmails\<close> holds
  every delivered thread (with its rationale attached) exactly as often as it was
  delivered; two threads with the same deduplication key and different ids are both
  listed, unmerged.
\<close>

theorem generateBrief_no_dedup:
  assumes "fst (getCachedBrief (t_check clk) st) = None"
    and "es (window_or settings emailWindow 96) = Inr threads"
  shows "\<exists>b. fst (generateBrief clk settings es cs st) = Inr b
     \<and> mset (allEmails b) = mset (map (with_rationale (t_rank clk)) threads)
     \<and> length (allEmails b) = length threads
     \<and> (\<forall>x\<in>set threads. \<forall>y\<in>set threads.
          dedup_key x = dedup_key y \<and> thread_id x \<noteq> thread_id y \<longrightarrow>
          with_rationale (t_rank clk) x \<in> set (allEmails b)
          \<and> with_rationale (t_rank clk) y \<in> set (allEmails b)
          \<and> with_rationale (t_rank clk) x \<noteq> with_rationale (t_rank clk) y)"
proof -
  let ?b = "generated clk settings es cs"
  let ?f = "with_rationale (t_rank clk)"
  have g: "fst (generateBrief clk settings es cs st) = Inr ?b"
    using assms(1) by (simp add: generateBrief_miss)
  have m: "mset (allEmails ?b) = mset (map ?f threads)"
    using assms(2) by (simp add: generated_allEmails rankThreads_mset)
  then have s: "set (allEmails ?b) = ?f ` set threads"
    by (metis set_mset_mset set_map)
  have l: "length (allEmails ?b) = length threads"
    using m by (metis size_mset length_map)
  have ne: "?f x \<noteq> ?f y" if "thread_id x \<noteq> thread_id y" for x y
    using that by (auto simp: with_rationale_def dest: arg_cong [where f = thread_id])
  show ?thesis
    using g m l s ne by auto
qed

theorem generateBrief_no_dedup_witness:
  "fst (getCachedBrief (t_check (at_time 0)) empty_storage) = None
   \<and> two_account_source (window_or None emailWindow 96) = Inr [thread_a, thread_b]
   \<and> dedup_key thread_a = dedup_key thread_b
   \<and> fst (generateBrief (at_time 0) None two_account_source no_events empty_storage)
       = Inr (generated (at_time 0) None two_account_source no_events)
   \<and> length (allEmails (generated (at_time 0) None two_account_source no_events)) = 2"
proof -
  let ?g = "generated (at_time 0) None two_account_source no_events"
  have m: "fst (getCachedBrief (t_check (at_time 0)) empty_storage) = None"
    by (simp add: getCachedBrief_def empty_storage_def)
  have s: "two_account_source (window_or None emailWindow 96) = Inr [thread_a, thread_b]"
    by (simp add: two_account_source_def)
  have k: "dedup_key thread_a = dedup_key thread_b"
    by (simp add: dedup_key_def thread_a_def thread_b_def)
  have g: "fst (generateBrief (at_time 0) None two_account_source no_events empty_storage) = Inr ?g"
    using m by (simp add: generateBrief_miss)
  have "\<exists>b. fst (generateBrief (at_time 0) None two_account_source no_events empty_storage) = Inr b
          \<and> length (allEmails b) = length [thread_a, thread_b]"
    using generateBrief_no_dedup
      [of "at_time 0" empty_storage two_account_source None "[thread_a, thread_b]" no_events] m s
    by blast
  then have "length (allEmails ?g) = 2"
    using g by auto
  with m s k g show ?thesis
    by simp
qed

text \<open>
  Claim C9, as stated, has a failed fetch answered with the cached brief, even an expired
  one, and has the error propagate when nothing is cached. In the source an expired
  entry is removed before the fetch, both sources catch their errors and return the
  empty list, and \<open>generateBrief\<close> returns a new, empty brief: here with \<open>old_brief\<close>
  cached at instant 0 and both sources failing ten minutes later, and with an empty cache.
\<close>

theorem generateBrief_fetch_failure_no_fallback:
  "generateBrief (at_time 600000) None failing failing (cacheBrief 0 old_brief empty_storage)
     = (Inr \<lparr>brief_id = ''brief_600000'', timestamp = 600000, calendarEvents = [],
              topEmails = [], allEmails = []\<rparr>,
        \<lparr>cached_brief_data =
            Some \<lparr>brief_id = ''brief_600000'', timestamp = 600000, calendarEvents = [],
                   topEmails = [], allEmails = []\<rparr>,
          brief_timestamp = Some 600000, available = True\<rparr>)
   \<and> fst (generateBrief (at_time 600000) None failing failing empty_storage)
     = Inr \<lparr>brief_id = ''brief_600000'', timestamp = 600000, calendarEvents = [],
             topEmails = [], allEmails = []\<rparr>
   \<and> timestamp old_brief = 0 \<and> allEmails old_brief \<noteq> []"
  by (simp add: generateBrief_def getCachedBrief_def cacheBrief_def clearCache_def
        empty_storage_def BRIEF_CACHE_DURATION_def at_time_def failing_def window_or_def
        getEmailsFromWindow_def getEventsFromWindow_def show_int_def show_nat.simps
        old_brief_def Let_def)

text \<open>
  Claim C9, amended: a failing source fetch never fails brief generation and never
  brings back a cached brief. \<open>generateBrief\<close> always returns a brief, with or without a
  cached one, and propagates no error. A source whose fetch fails contributes the empty
  list to a newly generated brief that carries the new timestamp and is cached. A
  cached brief older than five minutes is discarded before the sources are asked and
  is not returned; a cached brief is returned only when it is at most five minutes old.
\<close>

theorem generateBrief_absorbs_fetch_failure:
  "(\<exists>b. fst (generateBrief clk settings es cs st) = Inr b)
   \<and> (fst (getCachedBrief (t_check clk) st) = None
        \<and> es (window_or settings emailWindow 96) = Inl e1 \<longrightarrow>
        (\<exists>b. generateBrief clk settings es cs st
               = (Inr b, cacheBrief (t_store clk) b (snd (getCachedBrief (t_check clk) st)))
             \<and> allEmails b = [] \<and> topEmails b = [] \<and> timestamp b = t_stamp clk))
   \<and> (fst (getCachedBrief (t_check clk) st) = None
        \<and> cs (window_or settings calendarWindow 24) = Inl e2 \<longrightarrow>
        (\<exists>b. fst (generateBrief clk settings es cs st) = Inr b
             \<and> calendarEvents b = [] \<and> timestamp b = t_stamp clk))
   \<and> (available st \<and> cached_brief_data st = Some b0 \<and> brief_timestamp st = Some t0
        \<and> t_check clk - t0 > 5 * 60 * 1000 \<longrightarrow>
        generateBrief clk settings es cs st
          = (Inr (generated clk settings es cs),
             cacheBrief (t_store clk) (generated clk settings es cs) st))
   \<and> (fst (generateBrief clk settings es cs st) = Inr b0
        \<and> cached_brief_data st = Some b0 \<and> b0 \<noteq> generated clk settings es cs \<longrightarrow>
        (\<exists>t0. brief_timestamp st = Some t0 \<and> t_check clk - t0 \<le> 5 * 60 * 1000))"
proof -
  let ?g = "generated clk settings es cs"
  have miss: "generateBrief clk settings es cs st
      = (Inr ?g, cacheBrief (t_store clk) ?g (snd (getCachedBrief (t_check clk) st)))"
    if "fst (getCachedBrief (t_check clk) st) = None"
    using that by (rule generateBrief_miss)
  have c1: "allEmails ?g = [] \<and> topEmails ?g = [] \<and> timestamp ?g = t_stamp clk"
    if "es (window_or settings emailWindow 96) = Inl e1"
    using that by (simp add: generated_def getEmailsFromWindow_def)
  have c2: "calendarEvents ?g = [] \<and> timestamp ?g = t_stamp clk"
    if "cs (window_or settings calendarWindow 24) = Inl e2"
    using that by (simp add: generated_def getEventsFromWindow_def)
  have c3: "generateBrief clk settings es cs st
          = (Inr ?g, cacheBrief (t_store clk) ?g st)"
    if "available st" "cached_brief_data st = Some b0" "brief_timestamp st = Some t0"
      "t_check clk - t0 > 5 * 60 * 1000"
    using that
    by (simp add: generateBrief_generated getCachedBrief_def clearCache_def cacheBrief_def
          BRIEF_CACHE_DURATION_def)
  have c4: "\<exists>t0. brief_timestamp st = Some t0 \<and> t_check clk - t0 \<le> 5 * 60 * 1000"
    if "fst (generateBrief clk settings es cs st) = Inr b0" "cached_brief_data st = Some b0"
      "b0 \<noteq> ?g"
    using that
    by (auto simp: generateBrief_generated getCachedBrief_def BRIEF_CACHE_DURATION_def
        split: prod.splits option.splits if_splits)
  show ?thesis
    using generateBrief_returns [of clk settings es cs st] miss c1 c2 c3 c4
    by (metis fst_conv)
qed

theorem generateBrief_absorbs_fetch_failure_witness:
  "fst (getCachedBrief (t_check (at_time 600000)) empty_storage) = None
   \<and> failing (window_or None emailWindow 96) = (Inl FetchError :: fetch_error + EmailThread list)
   \<and> fst (generateBrief (at_time 600000) None failing failing empty_storage)
       = Inr (generated (at_time 600000) None failing failing)
   \<and> allEmails (generated (at_time 600000) None failing failing) = []
   \<and> timestamp (generated (at_time 600000) None failing failing) = 600000"
proof -
  let ?g = "generated (at_time 600000) None failing failing"
  have m: "fst (getCachedBrief (t_check (at_time 600000)) empty_storage) = None"
    by (simp add: getCachedBrief_def empty_storage_def)
  have f: "failing (window_or None emailWindow 96) = (Inl FetchError :: fetch_error + EmailThread list)"
    by (simp add: failing_def)
  have g: "fst (generateBrief (at_time 600000) None failing failing empty_storage) = Inr ?g"
    using m by (simp add: generateBrief_miss)
  obtain b where
    "generateBrief (at_time 600000) None failing failing empty_storage
       = (Inr b, cacheBrief (t_store (at_time 600000)) b
            (snd (getCachedBrief (t_check (at_time 600000)) empty_storage)))"
    and "allEmails b = []" and "timestamp b = t_stamp (at_time 600000)"
    using generateBrief_absorbs_fetch_failure
      [of "at_time 600000" None failing failing empty_storage FetchError,
        THEN conjunct2, THEN conjunct1, rule_format, OF conjI [OF m f]]
    by blast
  then have "allEmails ?g = []" "timestamp ?g = 600000"
    using g by (auto simp: at_time_def)
  with m f g show ?thesis
    by simp
qed

section \<open>Concurrent calls of generateBrief\<close>

lemma filter_length_update:
  "c < length xs \<Longrightarrow>
   length (filter P (xs[c := y])) + (if P (xs ! c) then 1 else 0)
     = length (filter P xs) + (if P y then 1 else 0)"
proof (induction xs arbitrary: c)
  case Nil
  then show ?case by simp
next
  case (Cons x xs)
  show ?case
  proof (cases c)
    case 0
    then show ?thesis by simp
  next
    case (Suc d)
    then have "d < length xs"
      using Cons.prems by simp
    from Cons.IH [OF this] Suc show ?thesis
      by simp
  qed
qed

lemma call_step_budget:
  assumes "call_step settings es cs now c st = (c', st', g)"
  shows "g + (if c' = AwaitCache \<or> c' = AwaitClear then 1 else 0)
     \<le> (if c = AwaitCache \<or> c = AwaitClear then 1 else (0::nat))"
  using assms
  by (cases c) (auto simp: call_step_def split: if_splits option.splits)

lemma world_step_budget:
  "generations (world_step settings es cs ev w) + undecided (world_step settings es cs ev w)
     \<le> generations w + undecided w"
proof (cases ev)
  case (Pair c now)
  show ?thesis
  proof (cases "c < length (calls w)")
    case False
    with Pair show ?thesis
      by (simp add: world_step_def)
  next
    case True
    obtain c' st' g where s: "call_step settings es cs now (calls w ! c) (store w) = (c', st', g)"
      by (cases "call_step settings es cs now (calls w ! c) (store w)") auto
    let ?P = "\<lambda>c. c = AwaitCache \<or> c = AwaitClear"
    have w': "world_step settings es cs ev w
        = \<lparr>store = st', generations = generations w + g, calls = (calls w)[c := c']\<rparr>"
      using Pair True s by (simp add: world_step_def)
    have "length (filter ?P ((calls w)[c := c'])) + (if ?P (calls w ! c) then 1 else 0)
        = length (filter ?P (calls w)) + (if ?P c' then 1 else 0)"
      using True by (rule filter_length_update)
    moreover have "g + (if ?P c' then 1 else 0) \<le> (if ?P (calls w ! c) then 1 else (0::nat))"
      using s by (rule call_step_budget)
    ultimately show ?thesis
      unfolding w' undecided_def by (simp split: if_splits)
  qed
qed

lemma run_budget:
  "generations (run settings es cs schedule w) + undecided (run settings es cs schedule w)
     \<le> generations w + undecided w"
proof (induction schedule arbitrary: w)
  case Nil
  then show ?case by (simp add: run_def)
next
  case (Cons ev schedule)
  have "run settings es cs (ev # schedule) w
      = run settings es cs schedule (world_step settings es cs ev w)"
    by (simp add: run_def)
  then show ?case
    using Cons.IH [of "world_step settings es cs ev w"] world_step_budget [of settings es cs ev w]
    by simp
qed

lemma run_cold_bound: "generations (run settings es cs schedule (cold n)) \<le> n"
proof -
  have "generations (cold n) + undecided (cold n) = n"
    by (simp add: cold_def undecided_def)
  then show ?thesis
    using run_budget [of settings es cs schedule "cold n"] by simp
qed

lemma run_sequential:
  assumes "t4 - t2 \<le> 5 * 60 * 1000"
  shows "run settings es cs [(0, t1), (0, t2), (0, t3), (1, t4)] (cold 2)
     = \<lparr>store = cacheBrief t2 (generated (at_time t2) settings es cs) empty_storage,
        generations = 1,
        calls = [Returned (generated (at_time t2) settings es cs),
                 Returned (generated (at_time t2) settings es cs)]\<rparr>"
  using assms
  by (simp add: run_def world_step_def call_step_def cold_def empty_storage_def cacheBrief_def
        BRIEF_CACHE_DURATION_def numeral_2_eq_2)

lemma run_overlapping:
  "run settings es cs [(0, t1), (1, t2)] (cold 2)
     = \<lparr>store = empty_storage, generations = 2, calls = [AwaitSources, AwaitSources]\<rparr>"
  by (simp add: run_def world_step_def call_step_def cold_def empty_storage_def numeral_2_eq_2)

lemma call_step_clear:
  "call_step settings es cs now AwaitClear st = (AwaitSources, clearCache st, 1)"
  by (simp add: call_step_def)

lemma call_step_sources:
  "call_step settings es cs now AwaitSources st
     = (AwaitStore (generated (at_time now) settings es cs) now, st, 0)"
  by (simp add: call_step_def)

lemma call_step_store:
  "call_step settings es cs now (AwaitStore b t) st = (Returned b, cacheBrief t b st, 0)"
  by (simp add: call_step_def)

lemma call_step_returned:
  "call_step settings es cs now (Returned b) st = (Returned b, st, 0)"
  by (simp add: call_step_def)

lemma world_step_single:
  "world_step settings es cs (0, now) \<lparr>store = s, generations = k, calls = [c]\<rparr>
     = \<lparr>store = fst (snd (call_step settings es cs now c s)),
        generations = k + snd (snd (call_step settings es cs now c s)),
        calls = [fst (call_step settings es cs now c s)]\<rparr>"
  by (simp add: world_step_def split: prod.splits)

text \<open>One call running alone is \<open>generateBrief\<close>.\<close>

lemma run_alone:
  assumes "generateBrief \<lparr>t_check = ta, t_rank = tb, t_id = tb, t_stamp = tb, t_store = tb\<rparr>
       settings es cs st = (Inr b, st')"
  shows "calls (run settings es cs [(0, ta), (0, tb), (0, tb), (0, tb)]
                 \<lparr>store = st, generations = 0, calls = [AwaitCache]\<rparr>) = [Returned b]
     \<and> store (run settings es cs [(0, ta), (0, tb), (0, tb), (0, tb)]
                 \<lparr>store = st, generations = 0, calls = [AwaitCache]\<rparr>) = st'"
proof -
  let ?clk = "\<lparr>t_check = ta, t_rank = tb, t_id = tb, t_stamp = tb, t_store = tb\<rparr>"
  let ?g = "generated (at_time tb) settings es cs"
  note steps = world_step_single call_step_clear call_step_sources call_step_store
    call_step_returned
  have gen: "generated ?clk settings es cs = ?g"
    by (simp add: generated_def at_time_def)
  have r: "run settings es cs [(0, ta), (0, tb), (0, tb), (0, tb)] w
      = world_step settings es cs (0, tb) (world_step settings es cs (0, tb)
          (world_step settings es cs (0, tb) (world_step settings es cs (0, ta) w)))" for w
    by (simp add: run_def)
  consider (off) "\<not> available st"
    | (part) "available st" "cached_brief_data st = None \<or> brief_timestamp st = None"
    | (hit) d t where "available st" "cached_brief_data st = Some d" "brief_timestamp st = Some t"
        "\<not> ta - t > BRIEF_CACHE_DURATION"
    | (expired) d t where "available st" "cached_brief_data st = Some d"
        "brief_timestamp st = Some t" "ta - t > BRIEF_CACHE_DURATION"
    by (cases "cached_brief_data st"; cases "brief_timestamp st") auto
  then show ?thesis
  proof cases
    case off
    then have "generateBrief ?clk settings es cs st = (Inr ?g, st)"
      by (simp add: generateBrief_generated getCachedBrief_def gen cacheBrief_def)
    with assms have b: "b = ?g" "st' = st"
      by auto
    have first: "call_step settings es cs ta AwaitCache st = (AwaitSources, st, 1)"
      using off by (simp add: call_step_def)
    have "cacheBrief tb ?g st = st"
      using off by (simp add: cacheBrief_def)
    then show ?thesis
      unfolding r by (simp add: steps first b)
  next
    case part
    then have "getCachedBrief ta st = (None, st)"
      by (auto simp: getCachedBrief_def split: option.splits)
    then have "generateBrief ?clk settings es cs st = (Inr ?g, cacheBrief tb ?g st)"
      by (simp add: generateBrief_generated gen)
    with assms have b: "b = ?g" "st' = cacheBrief tb ?g st"
      by auto
    have first: "call_step settings es cs ta AwaitCache st = (AwaitSources, st, 1)"
      using part by (auto simp: call_step_def split: option.splits)
    show ?thesis
      unfolding r by (simp add: steps first b)
  next
    case hit
    then have "generateBrief ?clk settings es cs st = (Inr d, st)"
      by (simp add: generateBrief_generated getCachedBrief_def)
    with assms have b: "b = d" "st' = st"
      by auto
    have first: "call_step settings es cs ta AwaitCache st = (Returned d, st, 0)"
      using hit by (simp add: call_step_def)
    show ?thesis
      unfolding r by (simp add: steps first b)
  next
    case expired
    then have "generateBrief ?clk settings es cs st = (Inr ?g, cacheBrief tb ?g (clearCache st))"
      by (simp add: generateBrief_generated getCachedBrief_def gen)
    with assms have b: "b = ?g" "st' = cacheBrief tb ?g (clearCache st)"
      by auto
    have first: "call_step settings es cs ta AwaitCache st = (AwaitClear, st, 0)"
      using expired by (simp add: call_step_def)
    show ?thesis
      unfolding r by (simp add: steps first b)
  qed
qed

lemma run_append:
  "run settings es cs (s @ s') w = run settings es cs s' (run settings es cs s w)"
  by (simp add: run_def)

lemma run_Cons:
  "run settings es cs (ev # s) w = run settings es cs s (world_step settings es cs ev w)"
  by (simp add: run_def)

lemma world_step_beyond:
  "\<not> c < length (calls w) \<Longrightarrow> world_step settings es cs (c, now) w = w"
  by (simp add: world_step_def)

lemma world_step_call:
  assumes "c < length (calls w)"
    and "call_step settings es cs now (calls w ! c) (store w) = (c', st', k)"
  shows "world_step settings es cs (c, now) w
     = \<lparr>store = st', generations = generations w + k, calls = (calls w)[c := c']\<rparr>"
  using assms by (simp add: world_step_def)

lemma is_returned_iff: "is_returned c \<longleftrightarrow> (\<exists>b. c = Returned b)"
  by (cases c) (simp_all add: is_returned_def)

lemma length_world_step:
  "length (calls (world_step settings es cs ev w)) = length (calls w)"
  by (cases ev) (simp add: world_step_def split: prod.splits)

lemma length_run: "length (calls (run settings es cs s w)) = length (calls w)"
  by (induction s arbitrary: w) (simp_all add: run_def length_world_step)

text \<open>
  While no call has returned, the store is empty: every call that checks the cache
  starts its own generation.
\<close>

lemma unshared_step:
  assumes inv: "(\<forall>c\<in>set (calls w). \<not> is_returned c) \<longrightarrow> unshared E g w"
    and ev: "(c, now) \<in> E"
    and g: "g = (\<lambda>t. generated (at_time t) settings es cs)"
    and none: "\<forall>c\<in>set (calls (world_step settings es cs (c, now) w)). \<not> is_returned c"
  shows "unshared E g (world_step settings es cs (c, now) w)"
proof (cases "c < length (calls w)")
  case False
  then have same: "world_step settings es cs (c, now) w = w"
    by (rule world_step_beyond)
  with inv none show ?thesis
    by simp
next
  case True
  obtain c' st' k where s: "call_step settings es cs now (calls w ! c) (store w) = (c', st', k)"
    by (cases "call_step settings es cs now (calls w ! c) (store w)") auto
  note w' = world_step_call [OF True s]
  have c': "\<not> is_returned c'"
    using none True unfolding w' by (auto simp: set_update_memI)
  have "\<not> is_returned x" if "x \<in> set (calls w)" for x
  proof -
    from that obtain j where j: "j < length (calls w)" "x = calls w ! j"
      by (auto simp: in_set_conv_nth)
    show ?thesis
    proof (cases "j = c")
      case True
      show ?thesis
      proof
        assume "is_returned x"
        then obtain b where "calls w ! c = Returned b"
          using j True by (auto simp: is_returned_iff)
        with s have "c' = Returned b"
          by (simp add: call_step_def)
        with c' show False
          by (simp add: is_returned_def)
      qed
    next
      case False
      then have "((calls w)[c := c']) ! j = x"
        using j by simp
      then have "x \<in> set ((calls w)[c := c'])"
        using j by (metis length_list_update nth_mem)
      with none show ?thesis
        unfolding w' by simp
    qed
  qed
  with inv have u: "unshared E g w"
    by blast
  then have st: "store w = empty_storage"
    and gen: "generations w = length (filter (\<lambda>c. c \<noteq> AwaitCache) (calls w))"
    and own: "\<And>i. i < length (calls w)
        \<Longrightarrow> calls w ! i = AwaitCache \<or> own_state E g i (calls w ! i)"
    by (simp_all add: unshared_def)
  let ?P = "\<lambda>c. c \<noteq> AwaitCache"
  have count: "length (filter ?P ((calls w)[c := c'])) + (if ?P (calls w ! c) then 1 else 0)
      = length (filter ?P (calls w)) + (if ?P c' then 1 else 0)"
    using True by (rule filter_length_update)
  have step: "st' = empty_storage
      \<and> generations w + k = length (filter ?P ((calls w)[c := c']))
      \<and> (c' = AwaitCache \<or> own_state E g c c')"
  proof -
    consider (check) "calls w ! c = AwaitCache"
      | (fetch) "calls w ! c = AwaitSources"
      | (storing) t where "(c, t) \<in> E" "calls w ! c = AwaitStore (g t) t"
      | (finished) t where "calls w ! c = Returned (g t)"
      using own [OF True] by (auto simp: own_state_def)
    then show ?thesis
    proof cases
      case check
      with s st have "c' = AwaitSources" "st' = empty_storage" "k = 1"
        by (simp_all add: call_step_def empty_storage_def)
      with count check gen show ?thesis
        by (simp add: own_state_def)
    next
      case fetch
      with s st have "c' = AwaitStore (g now) now" "st' = empty_storage" "k = 0"
        by (simp_all add: call_step_def g)
      with count fetch gen ev show ?thesis
        by (auto simp: own_state_def)
    next
      case storing
      with s have "c' = Returned (g t)"
        by (simp add: call_step_def)
      with c' show ?thesis
        by (simp add: is_returned_def)
    next
      case finished
      with s have "c' = Returned (g t)"
        by (simp add: call_step_def)
      with c' show ?thesis
        by (simp add: is_returned_def)
    qed
  qed
  show ?thesis
    unfolding w' unshared_def using step own True
    by (auto simp: nth_list_update)
qed

lemma unshared_run:
  assumes "(\<forall>c\<in>set (calls w). \<not> is_returned c) \<longrightarrow> unshared E g w"
    and "set s \<subseteq> E"
    and "g = (\<lambda>t. generated (at_time t) settings es cs)"
  shows "(\<forall>c\<in>set (calls (run settings es cs s w)). \<not> is_returned c)
     \<longrightarrow> unshared E g (run settings es cs s w)"
  using assms(1,2)
proof (induction s arbitrary: w)
  case Nil
  then show ?case
    by (simp add: run_def)
next
  case (Cons ev s)
  obtain c now where ev: "ev = (c, now)"
    by (cases ev) auto
  have "(\<forall>x\<in>set (calls (world_step settings es cs ev w)). \<not> is_returned x)
      \<longrightarrow> unshared E g (world_step settings es cs ev w)"
    unfolding ev using unshared_step [OF Cons.prems(1) _ assms(3)] Cons.prems(2) ev
    by auto
  then show ?case
    unfolding run_Cons using Cons.IH Cons.prems(2) by simp
qed

lemma unshared_cold: "unshared E g (cold n)"
  by (simp add: unshared_def cold_def)

text \<open>
  Once every call has checked the empty cache, no call reads the cache again: each
  assembles a brief from its own fetches and returns it.
\<close>

lemma all_own_step:
  assumes inv: "all_own E g n w"
    and ev: "(c, now) \<in> E"
    and g: "g = (\<lambda>t. generated (at_time t) settings es cs)"
  shows "all_own E g n (world_step settings es cs (c, now) w)"
proof (cases "c < length (calls w)")
  case False
  then have "world_step settings es cs (c, now) w = w"
    by (rule world_step_beyond)
  with inv show ?thesis
    by simp
next
  case True
  obtain c' st' k where s: "call_step settings es cs now (calls w ! c) (store w) = (c', st', k)"
    by (cases "call_step settings es cs now (calls w ! c) (store w)") auto
  note w' = world_step_call [OF True s]
  have gen: "generations w = n" and len: "length (calls w) = n"
    and own: "\<And>i. i < length (calls w) \<Longrightarrow> own_state E g i (calls w ! i)"
    using inv by (simp_all add: all_own_def)
  have step: "k = 0 \<and> own_state E g c c'"
  proof -
    consider (fetch) "calls w ! c = AwaitSources"
      | (storing) t where "(c, t) \<in> E" "calls w ! c = AwaitStore (g t) t"
      | (finished) t where "(c, t) \<in> E" "calls w ! c = Returned (g t)"
      using own [OF True] by (auto simp: own_state_def)
    then show ?thesis
    proof cases
      case fetch
      with s have "c' = AwaitStore (g now) now" "k = 0"
        by (simp_all add: call_step_def g)
      with ev show ?thesis
        by (auto simp: own_state_def)
    next
      case storing
      with s have "c' = Returned (g t)" "k = 0"
        by (simp_all add: call_step_def)
      with storing show ?thesis
        by (auto simp: own_state_def)
    next
      case finished
      with s have "c' = Returned (g t)" "k = 0"
        by (simp_all add: call_step_def)
      with finished show ?thesis
        by (auto simp: own_state_def)
    qed
  qed
  show ?thesis
    unfolding w' all_own_def using step own gen len True
    by (auto simp: nth_list_update)
qed

lemma all_own_run:
  assumes "all_own E g n w" and "set s \<subseteq> E"
    and "g = (\<lambda>t. generated (at_time t) settings es cs)"
  shows "all_own E g n (run settings es cs s w)"
  using assms(1,2)
proof (induction s arbitrary: w)
  case Nil
  then show ?case
    by (simp add: run_def)
next
  case (Cons ev s)
  obtain c now where ev: "ev = (c, now)"
    by (cases ev) auto
  have "all_own E g n (world_step settings es cs ev w)"
    unfolding ev using all_own_step [OF Cons.prems(1) _ assms(3)] Cons.prems(2) ev
    by auto
  then show ?case
    unfolding run_Cons using Cons.IH Cons.prems(2) by simp
qed

lemma run_unshared_generations:
  assumes "overlapping (run settings es cs pre (cold n))"
  shows "all_own (set (pre @ post)) (\<lambda>t. generated (at_time t) settings es cs) n
           (run settings es cs (pre @ post) (cold n))"
proof -
  let ?g = "\<lambda>t. generated (at_time t) settings es cs"
  let ?E = "set (pre @ post)"
  let ?w = "run settings es cs pre (cold n)"
  have len: "length (calls ?w) = n"
    by (simp add: length_run cold_def)
  have over: "\<forall>c\<in>set (calls ?w). c \<noteq> AwaitCache \<and> \<not> is_returned c"
    using assms by (simp add: overlapping_def list_all_iff)
  have "(\<forall>c\<in>set (calls ?w). \<not> is_returned c) \<longrightarrow> unshared ?E ?g ?w"
    by (rule unshared_run) (simp_all add: unshared_cold)
  with over have u: "unshared ?E ?g ?w"
    by blast
  have "filter (\<lambda>c. c \<noteq> AwaitCache) (calls ?w) = calls ?w"
    using over by (simp add: filter_id_conv)
  with u len have gen: "generations ?w = n"
    by (simp add: unshared_def)
  have "own_state ?E ?g i (calls ?w ! i)" if "i < length (calls ?w)" for i
  proof -
    have "calls ?w ! i \<noteq> AwaitCache"
      using over that by (metis nth_mem)
    with u that show ?thesis
      by (auto simp: unshared_def)
  qed
  with gen len have "all_own ?E ?g n ?w"
    by (simp add: all_own_def)
  then have "all_own ?E ?g n (run settings es cs post ?w)"
    by (rule all_own_run) simp_all
  then show ?thesis
    by (simp add: run_append)
qed

lemma run_own_brief:
  assumes "overlapping (run settings es cs pre (cold n))"
    and "c < n"
    and "calls (run settings es cs (pre @ post) (cold n)) ! c = Returned b"
  shows "b \<in> set (own_briefs settings es cs c (pre @ post))"
proof -
  let ?g = "\<lambda>t. generated (at_time t) settings es cs"
  have a: "all_own (set (pre @ post)) ?g n (run settings es cs (pre @ post) (cold n))"
    using assms(1) by (rule run_unshared_generations)
  then have "own_state (set (pre @ post)) ?g c
      (calls (run settings es cs (pre @ post) (cold n)) ! c)"
    using assms(2) by (simp add: all_own_def)
  then obtain t where "(c, t) \<in> set (pre @ post)" "b = ?g t"
    using assms(3) by (auto simp: own_state_def)
  then show ?thesis
    unfolding own_briefs_def by force
qed

text \<open>
  When each call makes its cache check before any call takes a second step, all the
  generations are in flight together.
\<close>

lemma world_step_check_empty:
  assumes "c < length xs" and "xs ! c = AwaitCache"
  shows "world_step settings es cs (c, now) \<lparr>store = empty_storage, generations = k, calls = xs\<rparr>
     = \<lparr>store = empty_storage, generations = k + 1, calls = xs[c := AwaitSources]\<rparr>"
  using assms by (simp add: world_step_def call_step_def empty_storage_def)

lemma run_checks:
  assumes "distinct (map fst s)" and "fst ` set s \<subseteq> {..<n}"
  shows "run settings es cs s (cold n)
     = \<lparr>store = empty_storage, generations = length s,
        calls = map (\<lambda>i. if i \<in> fst ` set s then AwaitSources else AwaitCache) [0..<n]\<rparr>"
  using assms
proof (induction s rule: rev_induct)
  case Nil
  show ?case
    by (simp add: run_def cold_def list_eq_iff_nth_eq)
next
  case (snoc ev s)
  obtain c now where ev: "ev = (c, now)"
    by (cases ev) auto
  let ?xs = "map (\<lambda>i. if i \<in> fst ` set s then AwaitSources else AwaitCache) [0..<n]"
  have c: "c < n" "c \<notin> fst ` set s"
    using snoc.prems ev by auto
  have IH: "run settings es cs s (cold n)
      = \<lparr>store = empty_storage, generations = length s, calls = ?xs\<rparr>"
    using snoc.IH snoc.prems by simp
  have "run settings es cs (s @ [ev]) (cold n)
      = world_step settings es cs (c, now) (run settings es cs s (cold n))"
    by (simp add: run_def ev)
  also have "\<dots> = world_step settings es cs (c, now)
          \<lparr>store = empty_storage, generations = length s, calls = ?xs\<rparr>"
    by (simp only: IH)
  also have "\<dots>
      = \<lparr>store = empty_storage, generations = length s + 1, calls = ?xs[c := AwaitSources]\<rparr>"
    by (rule world_step_check_empty) (use c in simp_all)
  also have "?xs[c := AwaitSources]
      = map (\<lambda>i. if i \<in> fst ` set (s @ [ev]) then AwaitSources else AwaitCache) [0..<n]"
    using c ev by (auto simp: list_eq_iff_nth_eq nth_list_update)
  finally show ?case
    by simp
qed

lemma run_all_check_first:
  assumes "distinct (map fst s)" and "set (map fst s) = {..<n}"
  shows "run settings es cs s (cold n)
     = \<lparr>store = empty_storage, generations = n, calls = replicate n AwaitSources\<rparr>"
proof -
  have "length s = n"
    using assms by (metis card_lessThan distinct_card length_map)
  moreover have "map (\<lambda>i. if i \<in> fst ` set s then AwaitSources else AwaitCache) [0..<n]
      = replicate n AwaitSources"
    using assms(2) by (auto simp: list_eq_iff_nth_eq)
  ultimately show ?thesis
    using run_checks [of s n settings es cs] assms by simp
qed

text \<open>
  Claim C6, as stated, has two concurrent callers on a cold cache share one generation.
  Both calls read the empty cache before either has stored a brief, and each issues its
  own pair of source fetches: two generations are in flight, and each call returns the
  brief of its own generation.
\<close>

theorem generateBrief_no_single_flight:
  "in_flight (run None two_account_source no_events [(0, 0), (1, 0)] (cold 2)) = 2
   \<and> generations (run None two_account_source no_events [(0, 0), (1, 0)] (cold 2)) = 2
   \<and> generations (run None two_account_source no_events
                    [(0, 0), (1, 0), (0, 1), (1, 2), (0, 3), (1, 4)] (cold 2)) = 2
   \<and> map returned_timestamp
        (calls (run None two_account_source no_events
                  [(0, 0), (1, 0), (0, 1), (1, 2), (0, 3), (1, 4)] (cold 2)))
       = [Some 1, Some 2]"
  by (simp add: run_def world_step_def call_step_def cold_def empty_storage_def in_flight_def
        numeral_2_eq_2 generated_def at_time_def cacheBrief_def returned_timestamp_def)

text \<open>
  Claim C6, amended: \<open>generateBrief\<close> has no single-flight coalescing. Each call that
  finds no usable cached brief starts its own generation, so under every schedule \<open>n\<close>
  calls on a cold cache start at most \<open>n\<close> generations. When each of the \<open>n\<close> calls makes
  its cache check before any call takes a further step, \<open>n\<close> generations are in flight
  together. When every call has made its cache check before any call has returned,
  the \<open>n\<close> calls start \<open>n\<close> generations, whatever the order of the other steps, and each
  call that returns gives the brief it assembled from its own fetches, not a shared
  one. A second call shares the first call's generation only through the cache: when it
  checks the cache after the first call has stored its brief and at most five minutes
  after that brief was stamped, it returns that brief and starts no generation.
\<close>

theorem generateBrief_generation_per_call:
  "generations (run settings es cs schedule (cold n)) \<le> n
   \<and> (distinct (map fst checks) \<and> set (map fst checks) = {..<n} \<longrightarrow>
        in_flight (run settings es cs checks (cold n)) = n
        \<and> generations (run settings es cs checks (cold n)) = n)
   \<and> (overlapping (run settings es cs pre (cold n)) \<longrightarrow>
        generations (run settings es cs (pre @ post) (cold n)) = n
        \<and> (\<forall>c b. c < n \<and> calls (run settings es cs (pre @ post) (cold n)) ! c = Returned b
              \<longrightarrow> b \<in> set (own_briefs settings es cs c (pre @ post))))
   \<and> (td - tb \<le> 5 * 60 * 1000 \<longrightarrow>
        run settings es cs [(0, ta), (0, tb), (0, tc), (1, td)] (cold 2)
          = \<lparr>store = cacheBrief tb (generated (at_time tb) settings es cs) empty_storage,
             generations = 1,
             calls = [Returned (generated (at_time tb) settings es cs),
                      Returned (generated (at_time tb) settings es cs)]\<rparr>)"
proof -
  have together: "in_flight (run settings es cs checks (cold n)) = n
      \<and> generations (run settings es cs checks (cold n)) = n"
    if "distinct (map fst checks)" "set (map fst checks) = {..<n}"
    unfolding run_all_check_first [OF that] by (simp add: in_flight_def)
  have each: "generations (run settings es cs (pre @ post) (cold n)) = n"
    if "overlapping (run settings es cs pre (cold n))"
    using run_unshared_generations [OF that, of post] by (simp add: all_own_def)
  show ?thesis
    using run_cold_bound [of settings es cs schedule n] together each
      run_own_brief [of settings es cs pre n _ post]
      run_sequential [of td tb settings es cs ta tc]
    by blast
qed

theorem generateBrief_generation_per_call_witness:
  "overlapping (run None two_account_source no_events [(0, 0), (0, 1), (1, 2)] (cold 2))
   \<and> in_flight (run None two_account_source no_events [(0, 0), (0, 1), (1, 2)] (cold 2)) = 1
   \<and> generations (run None two_account_source no_events
                    ([(0, 0), (0, 1), (1, 2)] @ [(0, 3), (1, 4), (1, 5)]) (cold 2)) = 2
   \<and> distinct (map fst [(0::nat, 0::int), (1, 0)])
   \<and> set (map fst [(0::nat, 0::int), (1, 0)]) = {..<2}
   \<and> in_flight (run None two_account_source no_events [(0, 0), (1, 0)] (cold 2)) = 2
   \<and> (300000::int) - 0 \<le> 5 * 60 * 1000
   \<and> generations (run None two_account_source no_events
                    [(0, 0), (0, 0), (0, 1), (1, 300000)] (cold 2)) = 1
   \<and> map returned_timestamp
        (calls (run None two_account_source no_events
                  [(0, 0), (0, 0), (0, 1), (1, 300000)] (cold 2)))
       = [Some 0, Some 0]"
proof -
  note inst = generateBrief_generation_per_call
    [where settings = None and es = two_account_source and cs = no_events and n = 2
      and checks = "[(0, 0), (1, 0)]" and pre = "[(0, 0), (0, 1), (1, 2)]"
      and post = "[(0, 3), (1, 4), (1, 5)]" and ta = 0 and tb = 0 and tc = 1 and td = 300000]
  have h: "(300000::int) - 0 \<le> 5 * 60 * 1000"
    by simp
  have d: "distinct (map fst [(0::nat, 0::int), (1, 0)])"
    "set (map fst [(0::nat, 0::int), (1, 0)]) = {..<2}"
    by (auto simp: numeral_2_eq_2 lessThan_Suc)
  have r: "run None two_account_source no_events [(0, 0), (0, 1), (1, 2)] (cold 2)
      = \<lparr>store = empty_storage, generations = 2,
         calls = [AwaitStore (generated (at_time 1) None two_account_source no_events) 1,
                  AwaitSources]\<rparr>"
    by (simp add: run_def world_step_def call_step_def cold_def empty_storage_def
          numeral_2_eq_2)
  have o: "overlapping (run None two_account_source no_events [(0, 0), (0, 1), (1, 2)] (cold 2))"
    and i: "in_flight (run None two_account_source no_events [(0, 0), (0, 1), (1, 2)] (cold 2))
      = 1"
    unfolding r by (simp_all add: overlapping_def is_returned_def in_flight_def)
  have g: "generations (run None two_account_source no_events
                    ([(0, 0), (0, 1), (1, 2)] @ [(0, 3), (1, 4), (1, 5)]) (cold 2)) = 2"
    using inst o by blast
  have f: "in_flight (run None two_account_source no_events [(0, 0), (1, 0)] (cold 2)) = 2"
    using inst d by blast
  have "run None two_account_source no_events [(0, 0), (0, 0), (0, 1), (1, 300000)] (cold 2)
      = \<lparr>store = cacheBrief 0 (generated (at_time 0) None two_account_source no_events)
                   empty_storage,
         generations = 1,
         calls = [Returned (generated (at_time 0) None two_account_source no_events),
                  Returned (generated (at_time 0) None two_account_source no_events)]\<rparr>"
    using inst h by blast
  then have s: "generations (run None two_account_source no_events
                    [(0, 0), (0, 0), (0, 1), (1, 300000)] (cold 2)) = 1"
    "map returned_timestamp
        (calls (run None two_account_source no_events
                  [(0, 0), (0, 0), (0, 1), (1, 300000)] (cold 2)))
       = [Some 0, Some 0]"
    by (simp_all add: generated_def at_time_def returned_timestamp_def)
  show ?thesis
    using o i g d f h s by blast
qed

end
